theory Spec2Isabelle
  imports Main "HOL-Library.Word"
begin

section \<open>The OpenAI proxy function: a model of \<^verbatim>\<open>netlify/functions/openai-proxy.js\<close>\<close>

text \<open>
  The repository is one serverless handler. It calls four things of its platform:
  \<^verbatim>\<open>JSON.parse\<close>, \<^verbatim>\<open>JSON.stringify\<close>, \<^verbatim>\<open>fetch\<close> and \<^verbatim>\<open>process.env\<close>. The two JSON functions are
  modelled here as ECMA-262 defines them (strings of 16-bit code units, numbers as IEEE 754
  doubles, objects with their property order); \<^verbatim>\<open>fetch\<close> and the environment are inputs of
  the handler.
\<close>

subsection \<open>Strings\<close>

text \<open>A JavaScript string is a sequence of 16-bit code units.\<close>

type_synonym code_unit = "16 word"
type_synonym js_string = "code_unit list"

text \<open>String literals of the source are ASCII; \<open>ascii\<close> reads a HOL literal as code units.\<close>

definition ascii :: "string \<Rightarrow> js_string" where
  "ascii s = map of_char s"

definition is_digit :: "code_unit \<Rightarrow> bool" where
  "is_digit c = (0x30 \<le> c \<and> c \<le> 0x39)"

definition digit_value :: "code_unit \<Rightarrow> nat" where
  "digit_value c = unat c - 48"

definition digit_char :: "nat \<Rightarrow> code_unit" where
  "digit_char d = of_nat (48 + d)"

text \<open>The value of a run of decimal digits, most significant first.\<close>

definition nat_of_digits :: "js_string \<Rightarrow> nat" where
  "nat_of_digits ds = foldl (\<lambda>n c. 10 * n + digit_value c) 0 ds"

text \<open>The decimal digits of a number, most significant first; \<open>0\<close> has the one digit \<open>0\<close>.\<close>

fun digits_of :: "nat \<Rightarrow> js_string" where
  "digits_of n = (if n < 10 then [digit_char n] else digits_of (n div 10) @ [digit_char (n mod 10)])"

declare digits_of.simps [simp del]

subsection \<open>Numbers\<close>

text \<open>
  A Number is an IEEE 754 double. \<open>Finite neg m e\<close> is \<open>(-1)\<^bsup>neg\<^esup> \<times> m \<times> 2\<^bsup>e\<^esup>\<close>, in the
  format's own normal form: \<open>e = -1074\<close> and \<open>m < 2\<^bsup>52\<^esup>\<close> (zero and the subnormals), or
  \<open>2\<^bsup>52\<^esup> \<le> m < 2\<^bsup>53\<^esup>\<close> and \<open>-1074 \<le> e \<le> 971\<close>. \<open>Finite True 0 (-1074)\<close> is \<open>-0\<close>.
  \<^verbatim>\<open>JSON.parse\<close> never returns NaN, so the model has none.
\<close>

datatype js_number = Finite bool nat int | Infinity bool

text \<open>The number of binary digits of a natural number.\<close>

fun bit_length :: "nat \<Rightarrow> nat" where
  "bit_length n = (if n = 0 then 0 else Suc (bit_length (n div 2)))"

declare bit_length.simps [simp del]

text \<open>\<open>a / b\<close> against \<open>2\<^bsup>d\<^esup>\<close>, and the exponent \<open>e\<close> with \<open>2\<^bsup>e\<^esup> \<le> a / b < 2\<^bsup>e+1\<^esup>\<close> (for \<open>a, b > 0\<close>).\<close>

definition ge_pow2 :: "nat \<Rightarrow> nat \<Rightarrow> int \<Rightarrow> bool" where
  "ge_pow2 a b d = (if 0 \<le> d then b * 2 ^ nat d \<le> a else b \<le> a * 2 ^ nat (- d))"

definition floor_log2 :: "nat \<Rightarrow> nat \<Rightarrow> int" where
  "floor_log2 a b =
     (let d = int (bit_length a) - int (bit_length b)
      in if ge_pow2 a b d then d else d - 1)"

text \<open>The integer nearest to \<open>p / q\<close>, a tie going to the even one.\<close>

definition round_half_even :: "nat \<Rightarrow> nat \<Rightarrow> nat" where
  "round_half_even p q =
     (let d = p div q; r = p mod q
      in if 2 * r < q \<or> (2 * r = q \<and> even d) then d else d + 1)"

text \<open>
  The Number value for \<open>a / b\<close> with the sign \<open>neg\<close> (ECMA-262, 6.1.6.1): the double
  nearest to it, ties to the even significand, an overflow to the infinity.
\<close>

definition round_double :: "bool \<Rightarrow> nat \<Rightarrow> nat \<Rightarrow> js_number" where
  "round_double neg a b =
     (if a = 0 then Finite neg 0 (- 1074)
      else
        let q = max (floor_log2 a b - 52) (- 1074);
            m = (if 0 \<le> q then round_half_even a (b * 2 ^ nat q)
                 else round_half_even (a * 2 ^ nat (- q)) b);
            m' = (if m = 2 ^ 53 then 2 ^ 52 else m);
            q' = (if m = 2 ^ 53 then q + 1 else q)
        in if 971 < q' then Infinity neg else Finite neg m' q')"

text \<open>The Number value for \<open>d \<times> 10\<^bsup>t\<^esup>\<close>.\<close>

definition decimal_double :: "bool \<Rightarrow> nat \<Rightarrow> int \<Rightarrow> js_number" where
  "decimal_double neg d t =
     (if 0 \<le> t then round_double neg (d * 10 ^ nat t) 1 else round_double neg d (10 ^ nat (- t)))"


text \<open>
  \<open>Number::toString\<close> (ECMA-262, 6.1.6.1.20) prints the shortest decimal \<open>s \<times> 10\<^bsup>n-k\<^esup>\<close>
  (\<open>k\<close> digits) whose Number value is the number itself, and of two such the nearer one.
  \<open>decimal_exponent a b\<close> is the \<open>n\<close> with \<open>10\<^bsup>n-1\<^esup> \<le> a / b < 10\<^bsup>n\<^esup>\<close>.
\<close>

function leading_zeros :: "nat \<Rightarrow> nat \<Rightarrow> nat" where
  "leading_zeros a b = (if a = 0 \<or> b \<le> a then 0 else Suc (leading_zeros (10 * a) b))"
  by pat_completeness auto
termination
  by (relation "measure (\<lambda>(a, b). b - a)") auto

declare leading_zeros.simps [simp del]

definition decimal_exponent :: "nat \<Rightarrow> nat \<Rightarrow> int" where
  "decimal_exponent a b =
     (if b \<le> a then int (length (digits_of (a div b))) else 1 - int (leading_zeros a b))"

text \<open>
  The candidates with \<open>k\<close> digits are the two neighbours of \<open>a / b\<close> on the grid of
  \<open>10\<^bsup>n-k\<^esup>\<close>, the nearer one first; a neighbour that reaches \<open>10\<^bsup>k\<^esup>\<close> is the one-digit
  \<open>1 \<times> 10\<^bsup>n\<^esup>\<close>. A candidate is a pair of \<open>s\<close> and its \<open>n\<close>.
\<close>

definition candidates :: "nat \<Rightarrow> nat \<Rightarrow> int \<Rightarrow> nat \<Rightarrow> (nat \<times> int) list" where
  "candidates a b n k =
     (let d = int k - n;
          num = (if 0 \<le> d then a * 10 ^ nat d else a);
          den = (if 0 \<le> d then b else b * 10 ^ nat (- d));
          lo = num div den;
          near = round_half_even num den;
          far = (if near = lo then lo + 1 else lo);
          norm = (\<lambda>s. if s = 10 ^ k then (1, n + 1) else (s, n))
      in [norm near, norm far])"

definition reads_as :: "js_number \<Rightarrow> nat \<times> int \<Rightarrow> bool" where
  "reads_as x c = (case c of (s, n) \<Rightarrow>
     0 < s \<and> decimal_double False s (n - int (length (digits_of s))) = x)"

fun shortest_digits :: "js_number \<Rightarrow> nat \<Rightarrow> nat \<Rightarrow> int \<Rightarrow> nat \<Rightarrow> nat \<Rightarrow> nat \<times> int" where
  "shortest_digits x a b n 0 k = hd (candidates a b n k)"
| "shortest_digits x a b n (Suc fuel) k =
     (case filter (reads_as x) (candidates a b n k) of
        c # _ \<Rightarrow> c
      | [] \<Rightarrow> shortest_digits x a b n fuel (Suc k))"

definition format_digits :: "nat \<times> int \<Rightarrow> js_string" where
  "format_digits c = (case c of (s, n) \<Rightarrow>
     let ds = digits_of s; k = int (length ds)
     in if k \<le> n \<and> n \<le> 21 then ds @ replicate (nat (n - k)) 0x30
        else if 0 < n \<and> n \<le> 21 then take (nat n) ds @ 0x2E # drop (nat n) ds
        else if - 6 < n \<and> n \<le> 0 then [0x30, 0x2E] @ replicate (nat (- n)) 0x30 @ ds
        else
          let ex = digits_of (nat \<bar>n - 1\<bar>); sign = (if n - 1 < 0 then 0x2D else 0x2B)
          in if k = 1 then ds @ 0x65 # sign # ex
             else hd ds # 0x2E # tl ds @ 0x65 # sign # ex)"

text \<open>
  The search needs no more digits than the exact decimal expansion of \<open>m \<times> 2\<^bsup>e\<^esup>\<close> has
  (for a double, 17 are enough).
\<close>

definition Number_toString :: "bool \<Rightarrow> nat \<Rightarrow> int \<Rightarrow> js_string" where
  "Number_toString neg m e =
     (if m = 0 then [0x30]
      else
        let a = (if 0 \<le> e then m * 2 ^ nat e else m);
            b = (if 0 \<le> e then 1 else 2 ^ nat (- e));
            n = decimal_exponent a b;
            fuel = nat (max n (n - e)) - 1
        in (if neg then [0x2D] else []) @
           format_digits (shortest_digits (Finite False m e) a b n fuel 1))"

text \<open>
  A number of the JSON grammar: \<^verbatim>\<open>-? (0 | [1-9][0-9]*) (. [0-9]+)? ([eE] [+-]? [0-9]+)?\<close>,
  and its Number value.
\<close>

definition number_of_token :: "js_string \<Rightarrow> js_number option" where
  "number_of_token tok =
     (let neg = (tok \<noteq> [] \<and> hd tok = 0x2D);
          t1 = (if neg then tl tok else tok);
          ip = takeWhile is_digit t1;
          t2 = dropWhile is_digit t1;
          has_frac = (t2 \<noteq> [] \<and> hd t2 = 0x2E);
          fp = (if has_frac then takeWhile is_digit (tl t2) else []);
          t3 = (if has_frac then dropWhile is_digit (tl t2) else t2);
          has_exp = (t3 \<noteq> [] \<and> (hd t3 = 0x65 \<or> hd t3 = 0x45));
          t4 = (if has_exp then tl t3 else t3);
          exp_neg = (has_exp \<and> t4 \<noteq> [] \<and> hd t4 = 0x2D);
          t5 = (if has_exp \<and> t4 \<noteq> [] \<and> (hd t4 = 0x2D \<or> hd t4 = 0x2B) then tl t4 else t4);
          ep = (if has_exp then takeWhile is_digit t5 else []);
          t6 = (if has_exp then dropWhile is_digit t5 else t5);
          ex = (if exp_neg then - int (nat_of_digits ep) else int (nat_of_digits ep))
      in if ip \<noteq> [] \<and> (hd ip \<noteq> 0x30 \<or> length ip = 1) \<and> (has_frac \<longrightarrow> fp \<noteq> [])
            \<and> (has_exp \<longrightarrow> ep \<noteq> []) \<and> t6 = []
         then Some (decimal_double neg (nat_of_digits (ip @ fp)) (ex - int (length fp)))
         else None)"


subsection \<open>JSON values\<close>

text \<open>
  What \<^verbatim>\<open>JSON.parse\<close> returns, and what the handler builds with object literals. An object is
  the list of its properties in the order \<^verbatim>\<open>JSON.stringify\<close> enumerates them.
\<close>

datatype json =
    JNull
  | JBool bool
  | JNumber js_number
  | JString js_string
  | JArray "json list"
  | JObject "(js_string \<times> json) list"

subsection \<open>\<^verbatim>\<open>JSON.stringify\<close>\<close>

text \<open>\<open>UnicodeEscape\<close>: \<^verbatim>\<open>\u\<close> and four lower-case hexadecimal digits.\<close>

definition hex_char :: "nat \<Rightarrow> code_unit" where
  "hex_char d = (if d < 10 then of_nat (48 + d) else of_nat (87 + d))"

definition unicode_escape :: "code_unit \<Rightarrow> js_string" where
  "unicode_escape c =
     [0x5C, 0x75, hex_char (unat c div 4096 mod 16), hex_char (unat c div 256 mod 16),
      hex_char (unat c div 16 mod 16), hex_char (unat c mod 16)]"

definition is_high_surrogate :: "code_unit \<Rightarrow> bool" where
  "is_high_surrogate c = (0xD800 \<le> c \<and> c \<le> 0xDBFF)"

definition is_low_surrogate :: "code_unit \<Rightarrow> bool" where
  "is_low_surrogate c = (0xDC00 \<le> c \<and> c \<le> 0xDFFF)"

text \<open>A code unit that is no surrogate, as \<open>QuoteJSONString\<close> writes it.\<close>

definition quote_unit :: "code_unit \<Rightarrow> js_string" where
  "quote_unit c =
     (if c = 0x08 then [0x5C, 0x62]
      else if c = 0x09 then [0x5C, 0x74]
      else if c = 0x0A then [0x5C, 0x6E]
      else if c = 0x0C then [0x5C, 0x66]
      else if c = 0x0D then [0x5C, 0x72]
      else if c = 0x22 then [0x5C, 0x22]
      else if c = 0x5C then [0x5C, 0x5C]
      else if c < 0x20 then unicode_escape c
      else [c])"

text \<open>A surrogate pair is written as it is, a lone surrogate as its escape.\<close>

fun quote_units :: "js_string \<Rightarrow> js_string" where
  "quote_units [] = []"
| "quote_units [c] =
     (if is_high_surrogate c \<or> is_low_surrogate c then unicode_escape c else quote_unit c)"
| "quote_units (c # d # cs) =
     (if is_high_surrogate c \<and> is_low_surrogate d then c # d # quote_units cs
      else if is_high_surrogate c \<or> is_low_surrogate c then unicode_escape c @ quote_units (d # cs)
      else quote_unit c @ quote_units (d # cs))"

definition QuoteJSONString :: "js_string \<Rightarrow> js_string" where
  "QuoteJSONString s = 0x22 # quote_units s @ [0x22]"

text \<open>The parts of an array or object, with the separator between them.\<close>

fun join :: "'a \<Rightarrow> 'a list list \<Rightarrow> 'a list" where
  "join sep [] = []"
| "join sep [x] = x"
| "join sep (x # y # ys) = x @ sep # join sep (y # ys)"

fun JSON_stringify :: "json \<Rightarrow> js_string" where
  "JSON_stringify JNull = ascii ''null''"
| "JSON_stringify (JBool b) = (if b then ascii ''true'' else ascii ''false'')"
| "JSON_stringify (JNumber (Finite neg m e)) = Number_toString neg m e"
| "JSON_stringify (JNumber (Infinity neg)) = ascii ''null''"
| "JSON_stringify (JString s) = QuoteJSONString s"
| "JSON_stringify (JArray xs) = 0x5B # join 0x2C (map JSON_stringify xs) @ [0x5D]"
| "JSON_stringify (JObject kvs) =
     0x7B # join 0x2C (map (\<lambda>kv. QuoteJSONString (fst kv) @ 0x3A # JSON_stringify (snd kv)) kvs) @ [0x7D]"


subsection \<open>\<^verbatim>\<open>JSON.parse\<close>\<close>

text \<open>
  The text is cut into tokens; a string token is read up to its closing quote, with the
  escapes \<^verbatim>\<open>\" \\ \/ \b \f \n \r \t \uXXXX\<close>, and no control character may stand in it.
\<close>

definition hex_value :: "code_unit \<Rightarrow> nat option" where
  "hex_value c =
     (if 0x30 \<le> c \<and> c \<le> 0x39 then Some (unat c - 48)
      else if 0x61 \<le> c \<and> c \<le> 0x66 then Some (unat c - 87)
      else if 0x41 \<le> c \<and> c \<le> 0x46 then Some (unat c - 55)
      else None)"

definition hex4 :: "code_unit \<Rightarrow> code_unit \<Rightarrow> code_unit \<Rightarrow> code_unit \<Rightarrow> code_unit option" where
  "hex4 h1 h2 h3 h4 =
     (case (hex_value h1, hex_value h2, hex_value h3, hex_value h4) of
        (Some a, Some b, Some c, Some d) \<Rightarrow> Some (of_nat (a * 4096 + b * 256 + c * 16 + d))
      | _ \<Rightarrow> None)"

definition simple_escape :: "code_unit \<Rightarrow> code_unit option" where
  "simple_escape e =
     (if e = 0x22 then Some 0x22
      else if e = 0x5C then Some 0x5C
      else if e = 0x2F then Some 0x2F
      else if e = 0x62 then Some 0x08
      else if e = 0x66 then Some 0x0C
      else if e = 0x6E then Some 0x0A
      else if e = 0x72 then Some 0x0D
      else if e = 0x74 then Some 0x09
      else None)"

definition cons_unit :: "code_unit \<Rightarrow> (js_string \<times> js_string) option \<Rightarrow> (js_string \<times> js_string) option" where
  "cons_unit u res = (case res of None \<Rightarrow> None | Some (s, r) \<Rightarrow> Some (u # s, r))"

text \<open>\<open>scan_string\<close> starts after the opening quote; it returns the string and the rest of the text.\<close>

fun scan_string :: "js_string \<Rightarrow> (js_string \<times> js_string) option" where
  "scan_string [] = None"
| "scan_string (c # cs) =
     (if c = 0x22 then Some ([], cs)
      else if c = 0x5C then
        (case cs of
           [] \<Rightarrow> None
         | e # r \<Rightarrow>
             if e = 0x75 then
               (case r of
                  h1 # h2 # h3 # h4 # r' \<Rightarrow>
                    (case hex4 h1 h2 h3 h4 of
                       None \<Rightarrow> None
                     | Some u \<Rightarrow> cons_unit u (scan_string r'))
                | _ \<Rightarrow> None)
             else
               (case simple_escape e of
                  None \<Rightarrow> None
                | Some u \<Rightarrow> cons_unit u (scan_string r)))
      else if c < 0x20 then None
      else cons_unit c (scan_string cs))"

datatype token = LBrace | RBrace | LBracket | RBracket | Colon | Comma | Prim json

definition is_whitespace :: "code_unit \<Rightarrow> bool" where
  "is_whitespace c = (c = 0x20 \<or> c = 0x09 \<or> c = 0x0A \<or> c = 0x0D)"

text \<open>The code units a number is written with: digits, \<^verbatim>\<open>+ - . e E\<close>.\<close>

definition is_number_unit :: "code_unit \<Rightarrow> bool" where
  "is_number_unit c = (is_digit c \<or> c = 0x2B \<or> c = 0x2D \<or> c = 0x2E \<or> c = 0x65 \<or> c = 0x45)"

definition cons_token :: "token \<Rightarrow> token list option \<Rightarrow> token list option" where
  "cons_token t res = (case res of None \<Rightarrow> None | Some ts \<Rightarrow> Some (t # ts))"

lemma cons_unit_length:
  "cons_unit u res = Some (s, r) \<Longrightarrow> \<exists>s'. res = Some (s', r)"
  by (auto simp: cons_unit_def split: option.splits)

lemma scan_string_length:
  "scan_string cs = Some (s, r) \<Longrightarrow> length r < length cs"
proof (induction cs arbitrary: s r rule: scan_string.induct)
  case 1
  then show ?case by simp
next
  case (2 c cs)
  show ?case
  proof (cases "c = 0x22")
    case True
    with "2.prems" show ?thesis by simp
  next
    case quote: False
    show ?thesis
    proof (cases "c = 0x5C")
      case True
      then obtain e r0 where cs: "cs = e # r0"
        using "2.prems" quote by (cases cs) auto
      show ?thesis
      proof (cases "e = 0x75")
        case u: True
        then obtain h1 h2 h3 h4 r' where r0: "r0 = h1 # h2 # h3 # h4 # r'"
          using "2.prems" quote True cs by (auto split: list.splits)
        then obtain v where v: "hex4 h1 h2 h3 h4 = Some v"
          using "2.prems" quote True cs u by (auto split: option.splits)
        then obtain s' where "scan_string r' = Some (s', r)"
          using "2.prems" quote True cs u r0 by (auto dest: cons_unit_length)
        then have "length r < length r'"
          using "2.IH"(1) quote True cs u r0 v by blast
        then show ?thesis by (simp add: cs r0)
      next
        case u: False
        then obtain v where v: "simple_escape e = Some v"
          using "2.prems" quote True cs by (auto split: option.splits)
        then obtain s' where "scan_string r0 = Some (s', r)"
          using "2.prems" quote True cs u by (auto dest: cons_unit_length)
        then have "length r < length r0"
          using "2.IH"(2) quote True cs u v by blast
        then show ?thesis by (simp add: cs)
      qed
    next
      case False
      then obtain s' where "scan_string cs = Some (s', r)"
        using "2.prems" quote by (auto split: if_splits dest: cons_unit_length)
      moreover have "\<not> c < 0x20"
        using "2.prems" quote False by (auto split: if_splits)
      ultimately have "length r < length cs"
        using "2.IH"(3) quote False by blast
      then show ?thesis by simp
    qed
  qed
qed

function lexer :: "js_string \<Rightarrow> token list option" where
  "lexer [] = Some []"
| "lexer (c # cs) =
     (if is_whitespace c then lexer cs
      else if c = 0x7B then cons_token LBrace (lexer cs)
      else if c = 0x7D then cons_token RBrace (lexer cs)
      else if c = 0x5B then cons_token LBracket (lexer cs)
      else if c = 0x5D then cons_token RBracket (lexer cs)
      else if c = 0x3A then cons_token Colon (lexer cs)
      else if c = 0x2C then cons_token Comma (lexer cs)
      else if c = 0x22 then
        (case scan_string cs of
           None \<Rightarrow> None
         | Some (s, r) \<Rightarrow> cons_token (Prim (JString s)) (lexer r))
      else if c = 0x74 \<and> take 3 cs = ascii ''rue'' then
        cons_token (Prim (JBool True)) (lexer (drop 3 cs))
      else if c = 0x66 \<and> take 4 cs = ascii ''alse'' then
        cons_token (Prim (JBool False)) (lexer (drop 4 cs))
      else if c = 0x6E \<and> take 3 cs = ascii ''ull'' then
        cons_token (Prim JNull) (lexer (drop 3 cs))
      else if is_number_unit c then
        (case number_of_token (c # takeWhile is_number_unit cs) of
           None \<Rightarrow> None
         | Some x \<Rightarrow> cons_token (Prim (JNumber x)) (lexer (dropWhile is_number_unit cs)))
      else None)"
  by pat_completeness auto
termination
  by (relation "measure length")
     (auto dest!: scan_string_length simp: less_Suc_eq_le length_dropWhile_le)


text \<open>
  Properties of an object. A key that is an array index (the canonical decimal of an
  integer below \<open>2\<^bsup>32\<^esup> - 1\<close>) is enumerated before every other key, the array indices in
  ascending order, the other keys in the order of their creation. \<open>put\<close> is
  \<open>CreateDataProperty\<close>: a key the object has keeps its place and takes the new value.
\<close>

definition is_array_index :: "js_string \<Rightarrow> bool" where
  "is_array_index k =
     (k \<noteq> [] \<and> list_all is_digit k \<and> (hd k \<noteq> 0x30 \<or> length k = 1)
      \<and> nat_of_digits k \<le> 4294967294)"

definition index_before :: "js_string \<Rightarrow> js_string \<times> json \<Rightarrow> bool" where
  "index_before k kv = (is_array_index (fst kv) \<and> nat_of_digits (fst kv) < nat_of_digits k)"

definition put :: "js_string \<Rightarrow> json \<Rightarrow> (js_string \<times> json) list \<Rightarrow> (js_string \<times> json) list" where
  "put k v kvs =
     (if k \<in> set (map fst kvs) then map (\<lambda>kv. if fst kv = k then (k, v) else kv) kvs
      else if is_array_index k then
        takeWhile (index_before k) kvs @ (k, v) # dropWhile (index_before k) kvs
      else kvs @ [(k, v)])"

text \<open>
  The parser reads the tokens with a stack of the arrays and objects that are open:
  \<open>parse_value\<close> expects a value, \<open>parse_after\<close> has just read the value \<open>v\<close>.
\<close>

datatype frame = InArray "json list" | InObject "(js_string \<times> json) list" js_string

fun parse_value :: "frame list \<Rightarrow> token list \<Rightarrow> json option"
  and parse_after :: "frame list \<Rightarrow> json \<Rightarrow> token list \<Rightarrow> json option" where
  "parse_value stk [] = None"
| "parse_value stk (t # ts) =
     (case t of
        Prim v \<Rightarrow> parse_after stk v ts
      | LBracket \<Rightarrow>
          (case ts of
             RBracket # ts' \<Rightarrow> parse_after stk (JArray []) ts'
           | _ \<Rightarrow> parse_value (InArray [] # stk) ts)
      | LBrace \<Rightarrow>
          (case ts of
             RBrace # ts' \<Rightarrow> parse_after stk (JObject []) ts'
           | Prim (JString k) # Colon # ts' \<Rightarrow> parse_value (InObject [] k # stk) ts'
           | _ \<Rightarrow> None)
      | _ \<Rightarrow> None)"
| "parse_after [] v ts = (if ts = [] then Some v else None)"
| "parse_after (InArray acc # stk) v ts =
     (case ts of
        Comma # ts' \<Rightarrow> parse_value (InArray (acc @ [v]) # stk) ts'
      | RBracket # ts' \<Rightarrow> parse_after stk (JArray (acc @ [v])) ts'
      | _ \<Rightarrow> None)"
| "parse_after (InObject acc k # stk) v ts =
     (case ts of
        Comma # Prim (JString k') # Colon # ts' \<Rightarrow> parse_value (InObject (put k v acc) k' # stk) ts'
      | RBrace # ts' \<Rightarrow> parse_after stk (JObject (put k v acc)) ts'
      | _ \<Rightarrow> None)"

text \<open>\<^verbatim>\<open>JSON.parse(text)\<close>: the value, or \<open>None\<close> where it throws a \<^verbatim>\<open>SyntaxError\<close>.\<close>

definition JSON_parse :: "js_string \<Rightarrow> json option" where
  "JSON_parse text = (case lexer text of None \<Rightarrow> None | Some ts \<Rightarrow> parse_value [] ts)"


subsection \<open>Writing a value and reading it again\<close>

text \<open>
  \<open>reread v\<close> is the value that \<^verbatim>\<open>JSON.parse\<close> reads from the text \<^verbatim>\<open>JSON.stringify\<close> writes
  for \<open>v\<close> (the lemma \<open>JSON_parse_stringify\<close> below): a number is read from its decimal, an
  infinity from \<^verbatim>\<open>null\<close>, and the properties of an object are created one after the other.
  \<open>tokens v\<close> are the tokens of that text.
\<close>

definition reread_number :: "js_number \<Rightarrow> json" where
  "reread_number x =
     (case x of
        Finite neg m e \<Rightarrow>
          (case number_of_token (Number_toString neg m e) of Some y \<Rightarrow> JNumber y | None \<Rightarrow> JNull)
      | Infinity neg \<Rightarrow> JNull)"

fun reread :: "json \<Rightarrow> json" where
  "reread JNull = JNull"
| "reread (JBool b) = JBool b"
| "reread (JNumber x) = reread_number x"
| "reread (JString s) = JString s"
| "reread (JArray xs) = JArray (map reread xs)"
| "reread (JObject kvs) = JObject (foldl (\<lambda>acc kv. put (fst kv) (reread (snd kv)) acc) [] kvs)"

fun tokens :: "json \<Rightarrow> token list" where
  "tokens JNull = [Prim JNull]"
| "tokens (JBool b) = [Prim (JBool b)]"
| "tokens (JNumber x) = [Prim (reread_number x)]"
| "tokens (JString s) = [Prim (JString s)]"
| "tokens (JArray xs) = LBracket # join Comma (map tokens xs) @ [RBracket]"
| "tokens (JObject kvs) =
     LBrace # join Comma (map (\<lambda>kv. Prim (JString (fst kv)) # Colon # tokens (snd kv)) kvs) @ [RBrace]"

text \<open>
  A value is read again as it was when its numbers are and its objects have their
  properties in the order of enumeration, each key once. Every value that \<^verbatim>\<open>JSON.parse\<close>
  returns has such objects (\<open>JSON_parse_ordered\<close>), but not every number is read again as
  it was: an infinity is written \<^verbatim>\<open>null\<close>, and \<open>-0\<close> is written \<^verbatim>\<open>0\<close>.
\<close>

definition number_survives :: "js_number \<Rightarrow> bool" where
  "number_survives x = (reread_number x = JNumber x)"

fun numbers_survive :: "json \<Rightarrow> bool" where
  "numbers_survive (JNumber x) = number_survives x"
| "numbers_survive (JArray xs) = list_all numbers_survive xs"
| "numbers_survive (JObject kvs) = list_all (\<lambda>kv. numbers_survive (snd kv)) kvs"
| "numbers_survive v = True"

definition key_order :: "js_string \<Rightarrow> js_string \<Rightarrow> bool" where
  "key_order k k' = (is_array_index k' \<longrightarrow> is_array_index k \<and> nat_of_digits k < nat_of_digits k')"

definition ordered_keys :: "js_string list \<Rightarrow> bool" where
  "ordered_keys ks = (distinct ks \<and> sorted_wrt key_order ks)"

fun ordered :: "json \<Rightarrow> bool" where
  "ordered (JArray xs) = list_all ordered xs"
| "ordered (JObject kvs) = (ordered_keys (map fst kvs) \<and> list_all (\<lambda>kv. ordered (snd kv)) kvs)"
| "ordered v = True"

text \<open>
  For the proofs: a text after which a number can end, and the values held by the tokens
  and by the open arrays and objects of the parser.
\<close>

definition separated :: "js_string \<Rightarrow> bool" where
  "separated r = (r = [] \<or> \<not> is_number_unit (hd r))"

fun frame_ordered :: "frame \<Rightarrow> bool" where
  "frame_ordered (InArray acc) = list_all ordered acc"
| "frame_ordered (InObject acc k) = ordered (JObject acc)"

fun token_ordered :: "token \<Rightarrow> bool" where
  "token_ordered (Prim v) = ordered v"
| "token_ordered t = True"

subsection \<open>The handler\<close>

text \<open>
  The event of the platform: \<^verbatim>\<open>event.httpMethod\<close> is a string, \<^verbatim>\<open>event.body\<close> a string or
  \<^verbatim>\<open>null\<close> (\<open>None\<close>). \<^verbatim>\<open>JSON.parse\<close> converts its argument to a string first, and \<^verbatim>\<open>null\<close>
  to the text \<^verbatim>\<open>null\<close>.
\<close>

record event =
  httpMethod :: js_string
  body :: "js_string option"

definition ToString :: "js_string option \<Rightarrow> js_string" where
  "ToString b = (case b of None \<Rightarrow> ascii ''null'' | Some s \<Rightarrow> s)"

text \<open>What is thrown: an error object, of which the handler reads \<^verbatim>\<open>message\<close>.\<close>

datatype js_error = Error js_string | SyntaxError js_string | TypeError js_string

fun message :: "js_error \<Rightarrow> js_string" where
  "message (Error m) = m"
| "message (SyntaxError m) = m"
| "message (TypeError m) = m"

text \<open>
  The call of \<^verbatim>\<open>fetch\<close> and what it resolves to. \<open>body_text\<close> is the outcome of reading the
  response's body as text, which \<^verbatim>\<open>response.text()\<close> and \<^verbatim>\<open>response.json()\<close> both do first:
  the text, or the error the read rejects with.
\<close>

record fetch_call =
  url :: js_string
  request_method :: js_string
  headers :: "(js_string \<times> js_string) list"
  body :: js_string

record fetch_response =
  status :: nat
  statusText :: js_string
  body_text :: "js_error + js_string"

definition ok :: "fetch_response \<Rightarrow> bool" where
  "ok r = (200 \<le> status r \<and> status r \<le> 299)"

text \<open>
  The platform of one invocation: \<^verbatim>\<open>process.env.OPENAI_API_KEY\<close> (\<open>None\<close> when it is not
  set), \<^verbatim>\<open>fetch\<close> (it resolves to a response or rejects with an error), and the message
  the engine gives the \<^verbatim>\<open>SyntaxError\<close> of \<^verbatim>\<open>JSON.parse\<close> for a text it rejects.
\<close>

record environment =
  OPENAI_API_KEY :: "js_string option"
  fetch :: "fetch_call \<Rightarrow> js_error + fetch_response"
  syntax_error_message :: "js_string \<Rightarrow> js_string"

definition parse_json :: "environment \<Rightarrow> js_string \<Rightarrow> js_error + json" where
  "parse_json env t =
     (case JSON_parse t of
        None \<Rightarrow> Inl (SyntaxError (syntax_error_message env t))
      | Some v \<Rightarrow> Inr v)"

definition response_json :: "environment \<Rightarrow> fetch_response \<Rightarrow> js_error + json" where
  "response_json env r = (case body_text r of Inl e \<Rightarrow> Inl e | Inr t \<Rightarrow> parse_json env t)"

text \<open>What the handler returns, and what it does on the way: the calls of \<^verbatim>\<open>fetch\<close> and the
  lines of \<^verbatim>\<open>console.error\<close>, in their order.\<close>

record response =
  statusCode :: nat
  body :: js_string

datatype log_entry = OpenAI_API_Error js_string | Proxy_function_error js_error

record outcome =
  returned :: response
  requests :: "fetch_call list"
  console :: "log_entry list"

definition upstream_call :: "js_string \<Rightarrow> json \<Rightarrow> fetch_call" where
  "upstream_call apiKey requestBody =
     \<lparr>url = ascii ''https://api.openai.com/v1/chat/completions'',
      request_method = ascii ''POST'',
      headers = [(ascii ''Content-Type'', ascii ''application/json''),
                 (ascii ''Authorization'', ascii ''Bearer '' @ apiKey)],
      fetch_call.body = JSON_stringify requestBody\<rparr>"

definition missing_key_message :: js_string where
  "missing_key_message = ascii ''OpenAI API key is not set in Netlify environment variables.''"

definition upstream_error_body :: "js_string \<Rightarrow> js_string \<Rightarrow> json" where
  "upstream_error_body text errorBody =
     JObject [(ascii ''error'', JString (ascii ''OpenAI API request failed: '' @ text)),
              (ascii ''details'', JString errorBody)]"

text \<open>The body of the \<^verbatim>\<open>try\<close> (lines 22 to 64): the response it returns or the error it
  throws, with the calls and the log lines made until then.\<close>

definition try_block :: "event \<Rightarrow> environment \<Rightarrow> (js_error + response) \<times> fetch_call list \<times> log_entry list" where
  "try_block ev env =
     (case parse_json env (ToString (event.body ev)) of
        Inl err \<Rightarrow> (Inl err, [], [])
      | Inr requestBody \<Rightarrow>
          (case OPENAI_API_KEY env of
             None \<Rightarrow> (Inl (Error missing_key_message), [], [])
           | Some apiKey \<Rightarrow>
               if apiKey = [] then (Inl (Error missing_key_message), [], [])
               else
                 let call = upstream_call apiKey requestBody in
                 (case fetch env call of
                    Inl err \<Rightarrow> (Inl err, [call], [])
                  | Inr resp \<Rightarrow>
                      if \<not> ok resp then
                        (case body_text resp of
                           Inl err \<Rightarrow> (Inl err, [call], [])
                         | Inr errorBody \<Rightarrow>
                             (Inr \<lparr>statusCode = status resp,
                                   response.body = JSON_stringify (upstream_error_body (statusText resp) errorBody)\<rparr>,
                              [call], [OpenAI_API_Error errorBody]))
                      else
                        (case response_json env resp of
                           Inl err \<Rightarrow> (Inl err, [call], [])
                         | Inr data \<Rightarrow>
                             (Inr \<lparr>statusCode = 200, response.body = JSON_stringify data\<rparr>,
                              [call], [])))))"

definition error_body :: "js_string \<Rightarrow> json" where
  "error_body m = JObject [(ascii ''error'', JString m)]"

definition handler :: "event \<Rightarrow> environment \<Rightarrow> outcome" where
  "handler ev env =
     (if httpMethod ev \<noteq> ascii ''POST'' then
        \<lparr>returned = \<lparr>statusCode = 405, response.body = ascii ''Method Not Allowed''\<rparr>,
         requests = [], console = []\<rparr>
      else
        (case try_block ev env of
           (Inr resp, calls, logs) \<Rightarrow> \<lparr>returned = resp, requests = calls, console = logs\<rparr>
         | (Inl error, calls, logs) \<Rightarrow>
             \<lparr>returned = \<lparr>statusCode = 500, response.body = JSON_stringify (error_body (message error))\<rparr>,
              requests = calls, console = logs @ [Proxy_function_error error]\<rparr>))"


text \<open>What the handler returns and logs once the request is sent: a function of the
  answer of \<^verbatim>\<open>fetch\<close> alone.\<close>

definition relay :: "environment \<Rightarrow> js_error + fetch_response \<Rightarrow> response \<times> log_entry list" where
  "relay env answer =
     (let failed = (\<lambda>err. (\<lparr>statusCode = 500, response.body = JSON_stringify (error_body (message err))\<rparr>,
                            [Proxy_function_error err]))
      in case answer of
           Inl err \<Rightarrow> failed err
         | Inr resp \<Rightarrow>
             if \<not> ok resp then
               (case body_text resp of
                  Inl err \<Rightarrow> failed err
                | Inr errorBody \<Rightarrow>
                    (\<lparr>statusCode = status resp,
                      response.body = JSON_stringify (upstream_error_body (statusText resp) errorBody)\<rparr>,
                     [OpenAI_API_Error errorBody]))
             else
               (case response_json env resp of
                  Inl err \<Rightarrow> failed err
                | Inr data \<Rightarrow> (\<lparr>statusCode = 200, response.body = JSON_stringify data\<rparr>, [])))"

subsection \<open>Concrete invocations\<close>

text \<open>
  The scenarios the properties are evaluated on: a POST event with a given body, and a
  platform whose \<^verbatim>\<open>fetch\<close> is a stub that answers every call the same way.
\<close>

definition post_event :: "js_string \<Rightarrow> event" where
  "post_event b = \<lparr>httpMethod = ascii ''POST'', event.body = Some b\<rparr>"

definition stub_env :: "js_string option \<Rightarrow> js_error + fetch_response \<Rightarrow> environment" where
  "stub_env key answer =
     \<lparr>OPENAI_API_KEY = key, fetch = (\<lambda>call. answer),
      syntax_error_message = (\<lambda>t. ascii ''Unexpected end of JSON input'')\<rparr>"

definition upstream_answer :: "nat \<Rightarrow> js_string \<Rightarrow> js_string \<Rightarrow> js_error + fetch_response" where
  "upstream_answer code reason t = Inr \<lparr>status = code, statusText = reason, body_text = Inr t\<rparr>"



section \<open>\<^verbatim>\<open>JSON.parse\<close> reads what \<^verbatim>\<open>JSON.stringify\<close> writes\<close>

lemma unat_of_nat_small: "n < 65536 \<Longrightarrow> unat (of_nat n :: code_unit) = n"
  by (simp add: unat_of_nat)

lemma unat_hex_char: "d < 16 \<Longrightarrow> unat (hex_char d) = (if d < 10 then 48 + d else 87 + d)"
proof -
  assume d: "d < 16"
  then have "48 + d < 65536" "87 + d < 65536" by simp_all
  then show ?thesis
    by (simp add: hex_char_def unat_of_nat_small del: of_nat_add)
qed

lemma hex_value_hex_char: "d < 16 \<Longrightarrow> hex_value (hex_char d) = Some d"
  by (simp add: hex_value_def word_le_nat_alt unat_hex_char)

lemma nibbles: "(n div 4096 mod 16) * 4096 + (n div 256 mod 16) * 256 + (n div 16 mod 16) * 16 + n mod 16 = (n::nat) mod 65536"
proof -
  have a: "n mod 65536 = n mod 4096 + 4096 * (n div 4096 mod 16)"
    using mod_mult2_eq [of n 4096 16] by simp
  have b: "n mod 4096 = n mod 256 + 256 * (n div 256 mod 16)"
    using mod_mult2_eq [of n 256 16] by simp
  have c: "n mod 256 = n mod 16 + 16 * (n div 16 mod 16)"
    using mod_mult2_eq [of n 16 16] by simp
  show ?thesis using a b c by simp
qed

lemma hex4_escape:
  "hex4 (hex_char (unat c div 4096 mod 16)) (hex_char (unat c div 256 mod 16))
        (hex_char (unat c div 16 mod 16)) (hex_char (unat c mod 16)) = Some (c :: code_unit)"
proof -
  have lt: "unat c < 65536" using unsigned_less [of c] by simp
  have n: "(unat c div 4096 mod 16) * 4096 + (unat c div 256 mod 16) * 256
            + (unat c div 16 mod 16) * 16 + unat c mod 16 = unat c"
    using nibbles [of "unat c"] lt by simp
  have "hex4 (hex_char (unat c div 4096 mod 16)) (hex_char (unat c div 256 mod 16))
        (hex_char (unat c div 16 mod 16)) (hex_char (unat c mod 16))
      = Some (of_nat ((unat c div 4096 mod 16) * 4096 + (unat c div 256 mod 16) * 256
            + (unat c div 16 mod 16) * 16 + unat c mod 16))"
    unfolding hex4_def by (simp only: hex_value_hex_char mod_less_divisor zero_less_numeral prod.case option.case)
  then show ?thesis unfolding n by simp
qed

lemma cons_unit_Some [simp]: "cons_unit u (Some (s, r)) = Some (u # s, r)"
  by (simp add: cons_unit_def)

lemma scan_unicode_escape: "scan_string (unicode_escape c @ r) = cons_unit c (scan_string r)"
  by (simp add: unicode_escape_def hex4_escape)

lemma scan_literal:
  "c \<noteq> 0x22 \<Longrightarrow> c \<noteq> 0x5C \<Longrightarrow> \<not> c < 0x20 \<Longrightarrow> scan_string (c # r) = cons_unit c (scan_string r)"
  by simp

lemma scan_quote_unit: "scan_string (quote_unit c @ r) = cons_unit c (scan_string r)"
  by (simp add: quote_unit_def scan_unicode_escape simple_escape_def)

lemma surrogate_literal:
  "is_high_surrogate c \<or> is_low_surrogate c \<Longrightarrow> c \<noteq> 0x22 \<and> c \<noteq> 0x5C \<and> \<not> c < 0x20"
  by (auto simp: is_high_surrogate_def is_low_surrogate_def word_le_nat_alt word_less_nat_alt)

lemma surrogate_disjoint: "is_high_surrogate c \<Longrightarrow> \<not> is_low_surrogate c"
  by (auto simp: is_high_surrogate_def is_low_surrogate_def word_le_nat_alt)

lemma scan_quote_units: "scan_string (quote_units s @ 0x22 # rest) = Some (s, rest)"
proof (induction s rule: quote_units.induct)
  case 1
  then show ?case by simp
next
  case (2 c)
  then show ?case by (simp add: scan_unicode_escape scan_quote_unit)
next
  case (3 c d cs)
  show ?case
  proof (cases "is_high_surrogate c \<and> is_low_surrogate d")
    case True
    then have "scan_string (c # d # quote_units cs @ 0x22 # rest)
        = cons_unit c (cons_unit d (scan_string (quote_units cs @ 0x22 # rest)))"
      using surrogate_literal [of c] surrogate_literal [of d] by (simp add: scan_literal del: scan_string.simps)
    then show ?thesis using True "3.IH"(1) by simp
  next
    case False
    then show ?thesis
      using "3.IH"(2,3) surrogate_disjoint [of c]
      by (auto simp add: scan_unicode_escape scan_quote_unit simp del: scan_string.simps)
  qed
qed

lemma unat_digit_char: "d < 10 \<Longrightarrow> unat (digit_char d) = 48 + d"
  by (simp add: digit_char_def unat_of_nat_small del: of_nat_add)

lemma is_digit_digit_char: "d < 10 \<Longrightarrow> is_digit (digit_char d)"
  by (simp add: is_digit_def word_le_nat_alt unat_digit_char)

lemma digit_value_digit_char: "d < 10 \<Longrightarrow> digit_value (digit_char d) = d"
  by (simp add: digit_value_def unat_digit_char)

lemma digit_char_zero: "d < 10 \<Longrightarrow> digit_char d = 0x30 \<longleftrightarrow> d = 0"
  by (simp add: word_unat_eq_iff unat_digit_char)

lemma digits_of_digits: "list_all is_digit (digits_of n)"
  by (induction n rule: digits_of.induct) (subst digits_of.simps, simp add: is_digit_digit_char)

lemma digits_of_nonempty: "digits_of n \<noteq> []"
  by (subst digits_of.simps) simp

lemma nat_of_digits_snoc: "nat_of_digits (ds @ [c]) = 10 * nat_of_digits ds + digit_value c"
  by (simp add: nat_of_digits_def)

lemma nat_of_digits_digits_of: "nat_of_digits (digits_of n) = n"
proof (induction n rule: digits_of.induct)
  case (1 n)
  show ?case
  proof (cases "n < 10")
    case True
    then show ?thesis
      by (subst digits_of.simps) (simp add: nat_of_digits_def digit_value_digit_char)
  next
    case False
    then show ?thesis
      using "1.IH" by (subst digits_of.simps) (simp add: nat_of_digits_snoc digit_value_digit_char)
  qed
qed

lemma hd_digits_of: "0 < n \<Longrightarrow> hd (digits_of n) \<noteq> 0x30"
proof (induction n rule: digits_of.induct)
  case (1 n)
  show ?case
  proof (cases "n < 10")
    case True
    then show ?thesis
      using "1.prems" by (subst digits_of.simps) (simp add: digit_char_zero)
  next
    case False
    then have "0 < n div 10" by simp
    then have "hd (digits_of (n div 10)) \<noteq> 0x30" using "1.IH" False by simp
    then show ?thesis
      using False by (subst digits_of.simps) (simp add: digits_of_nonempty)
  qed
qed

lemma nat_of_digits_append:
  "nat_of_digits (xs @ ys) = nat_of_digits xs * 10 ^ length ys + nat_of_digits ys"
proof (induction ys rule: rev_induct)
  case Nil
  then show ?case by (simp add: nat_of_digits_def)
next
  case (snoc y ys)
  then show ?case
    by (simp add: nat_of_digits_snoc append_assoc [symmetric] algebra_simps del: append_assoc)
qed

lemma nat_of_digits_zeros: "nat_of_digits (replicate z 0x30) = 0"
proof (induction z)
  case 0
  then show ?case by (simp add: nat_of_digits_def)
next
  case (Suc z)
  have "replicate (Suc z) (0x30 :: code_unit) = replicate z 0x30 @ [0x30]"
    by (simp add: replicate_append_same)
  then show ?case
    using Suc by (simp only: nat_of_digits_snoc) (simp add: digit_value_def)
qed

lemma takeWhile_digits:
  "list_all is_digit xs \<Longrightarrow> r = [] \<or> \<not> is_digit (hd r) \<Longrightarrow> takeWhile is_digit (xs @ r) = xs"
  by (cases r) (auto simp: list_all_iff takeWhile_append2 intro: takeWhile_eq_all_conv [THEN iffD2])

lemma dropWhile_digits:
  "list_all is_digit xs \<Longrightarrow> r = [] \<or> \<not> is_digit (hd r) \<Longrightarrow> dropWhile is_digit (xs @ r) = r"
  by (cases r) (auto simp: list_all_iff dropWhile_append2)

lemma digit_not_special:
  assumes "is_digit c"
  shows "c \<noteq> 0x2D" "c \<noteq> 0x2E" "c \<noteq> 0x65" "c \<noteq> 0x45" "c \<noteq> 0x2B"
  using assms by (auto simp: is_digit_def word_le_nat_alt)

lemma special_not_digit:
  "\<not> is_digit 0x2D" "\<not> is_digit 0x2E" "\<not> is_digit 0x65" "\<not> is_digit 0x45" "\<not> is_digit 0x2B"
  by (simp_all add: is_digit_def)

lemma hd_digits: "list_all is_digit xs \<Longrightarrow> xs \<noteq> [] \<Longrightarrow> is_digit (hd xs)"
  by (cases xs) simp_all

lemma takeWhile_all_digits: "list_all is_digit xs \<Longrightarrow> takeWhile is_digit xs = xs"
  by (simp add: list_all_iff)

lemma dropWhile_all_digits: "list_all is_digit xs \<Longrightarrow> dropWhile is_digit xs = []"
  by (simp add: list_all_iff)

lemma takeWhile_digits_Cons:
  "list_all is_digit xs \<Longrightarrow> \<not> is_digit c \<Longrightarrow> takeWhile is_digit (xs @ c # r) = xs"
  by (rule takeWhile_digits) simp_all

lemma dropWhile_digits_Cons:
  "list_all is_digit xs \<Longrightarrow> \<not> is_digit c \<Longrightarrow> dropWhile is_digit (xs @ c # r) = c # r"
  by (rule dropWhile_digits) simp_all

lemmas digit_runs = takeWhile_all_digits dropWhile_all_digits takeWhile_digits_Cons
  dropWhile_digits_Cons special_not_digit

lemma number_of_token_int:
  assumes "list_all is_digit ip" "ip \<noteq> []" "hd ip \<noteq> 0x30 \<or> length ip = 1"
  shows "number_of_token ((if neg then [0x2D] else []) @ ip) = Some (decimal_double neg (nat_of_digits ip) 0)"
proof -
  have "hd ip \<noteq> 0x2D" using assms hd_digits digit_not_special(1) by blast
  then show ?thesis
    using assms
    by (simp add: number_of_token_def Let_def digit_runs nat_of_digits_def
        del: takeWhile_eq_all_conv dropWhile_eq_Nil_conv)
qed

lemma number_of_token_frac:
  assumes "list_all is_digit ip" "ip \<noteq> []" "hd ip \<noteq> 0x30 \<or> length ip = 1"
    and "list_all is_digit fp" "fp \<noteq> []"
  shows "number_of_token ((if neg then [0x2D] else []) @ ip @ 0x2E # fp)
       = Some (decimal_double neg (nat_of_digits (ip @ fp)) (- int (length fp)))"
proof -
  have "hd ip \<noteq> 0x2D" using assms hd_digits digit_not_special(1) by blast
  then show ?thesis
    using assms
    by (simp add: number_of_token_def Let_def digit_runs nat_of_digits_def
        del: takeWhile_eq_all_conv dropWhile_eq_Nil_conv)
qed

lemma number_of_token_exp:
  assumes "list_all is_digit ip" "ip \<noteq> []" "hd ip \<noteq> 0x30 \<or> length ip = 1"
    and "list_all is_digit ep" "ep \<noteq> []"
  shows "number_of_token ((if neg then [0x2D] else []) @ ip @ 0x65 # 0x2B # ep)
       = Some (decimal_double neg (nat_of_digits ip) (int (nat_of_digits ep)))"
    and "number_of_token ((if neg then [0x2D] else []) @ ip @ 0x65 # 0x2D # ep)
       = Some (decimal_double neg (nat_of_digits ip) (- int (nat_of_digits ep)))"
proof -
  have "hd ip \<noteq> 0x2D" using assms hd_digits digit_not_special(1) by blast
  then show "number_of_token ((if neg then [0x2D] else []) @ ip @ 0x65 # 0x2B # ep)
       = Some (decimal_double neg (nat_of_digits ip) (int (nat_of_digits ep)))"
    and "number_of_token ((if neg then [0x2D] else []) @ ip @ 0x65 # 0x2D # ep)
       = Some (decimal_double neg (nat_of_digits ip) (- int (nat_of_digits ep)))"
    using assms
    by (simp_all add: number_of_token_def Let_def digit_runs
        del: takeWhile_eq_all_conv dropWhile_eq_Nil_conv)
qed

lemma number_of_token_frac_exp:
  assumes "list_all is_digit ip" "ip \<noteq> []" "hd ip \<noteq> 0x30 \<or> length ip = 1"
    and "list_all is_digit fp" "fp \<noteq> []"
    and "list_all is_digit ep" "ep \<noteq> []"
  shows "number_of_token ((if neg then [0x2D] else []) @ ip @ 0x2E # fp @ 0x65 # 0x2B # ep)
       = Some (decimal_double neg (nat_of_digits (ip @ fp)) (int (nat_of_digits ep) - int (length fp)))"
    and "number_of_token ((if neg then [0x2D] else []) @ ip @ 0x2E # fp @ 0x65 # 0x2D # ep)
       = Some (decimal_double neg (nat_of_digits (ip @ fp)) (- int (nat_of_digits ep) - int (length fp)))"
proof -
  have "hd ip \<noteq> 0x2D" using assms hd_digits digit_not_special(1) by blast
  then show "number_of_token ((if neg then [0x2D] else []) @ ip @ 0x2E # fp @ 0x65 # 0x2B # ep)
       = Some (decimal_double neg (nat_of_digits (ip @ fp)) (int (nat_of_digits ep) - int (length fp)))"
    and "number_of_token ((if neg then [0x2D] else []) @ ip @ 0x2E # fp @ 0x65 # 0x2D # ep)
       = Some (decimal_double neg (nat_of_digits (ip @ fp)) (- int (nat_of_digits ep) - int (length fp)))"
    using assms
    by (simp_all add: number_of_token_def Let_def digit_runs
        del: takeWhile_eq_all_conv dropWhile_eq_Nil_conv)
qed

lemma list_all_replicate_zero: "list_all is_digit (replicate z 0x30)"
  by (simp add: list_all_iff is_digit_def)

lemma format_digits_value:
  assumes "0 < s"
  shows "number_of_token ((if neg then [0x2D] else []) @ format_digits (s, n))
       = Some (decimal_double neg s (n - int (length (digits_of s))))"
proof -
  define ds where "ds = digits_of s"
  define k where "k = int (length ds)"
  have ds: "list_all is_digit ds" "ds \<noteq> []" "hd ds \<noteq> 0x30" "nat_of_digits ds = s"
    using assms by (simp_all add: ds_def digits_of_digits digits_of_nonempty hd_digits_of nat_of_digits_digits_of)
  have kpos: "0 < k" using ds(2) by (simp add: k_def)
  consider (whole) "k \<le> n" "n \<le> 21" | (fixed) "0 < n" "n < k" "n \<le> 21" | (small) "- 6 < n" "n \<le> 0"
    | (exp1) "n \<le> - 6 \<or> 21 < n" "k = 1" | (expk) "n \<le> - 6 \<or> 21 < n" "k \<noteq> 1"
    by linarith
  then show ?thesis
  proof cases
    case whole
    let ?ip = "ds @ replicate (nat (n - k)) 0x30"
    have f: "format_digits (s, n) = ?ip"
      using whole by (simp add: format_digits_def Let_def ds_def [symmetric] k_def [symmetric])
    have a: "number_of_token ((if neg then [0x2D] else []) @ ?ip)
        = Some (decimal_double neg (nat_of_digits ?ip) 0)"
      using ds by (intro number_of_token_int) (simp_all add: list_all_replicate_zero)
    have b1: "nat_of_digits ?ip = s * 10 ^ nat (n - k)"
      by (simp add: nat_of_digits_append nat_of_digits_zeros ds)
    have b2: "decimal_double neg (s * 10 ^ nat (n - k)) 0 = decimal_double neg s (n - k)"
      using whole by (simp add: decimal_double_def)
    show ?thesis
      unfolding f a b1 b2 by (simp add: k_def ds_def nat_of_digits_digits_of)
  next
    case fixed
    let ?ip = "take (nat n) ds" and ?fp = "drop (nat n) ds"
    have f: "format_digits (s, n) = ?ip @ 0x2E # ?fp"
      using fixed by (simp add: format_digits_def Let_def ds_def [symmetric] k_def [symmetric])
    have ip: "list_all is_digit ?ip" "?ip \<noteq> []" "hd ?ip \<noteq> 0x30"
      using ds fixed by (auto simp: list_all_iff dest: in_set_takeD)
    have fp: "list_all is_digit ?fp" "?fp \<noteq> []"
      using ds fixed by (auto simp: list_all_iff k_def dest: in_set_dropD)
    have a: "number_of_token ((if neg then [0x2D] else []) @ ?ip @ 0x2E # ?fp)
        = Some (decimal_double neg (nat_of_digits (?ip @ ?fp)) (- int (length ?fp)))"
      using ip fp by (intro number_of_token_frac) simp_all
    have b1: "- int (length ?fp) = n - k"
      using fixed by (simp add: k_def)
    show ?thesis
      unfolding f a b1 by (simp add: k_def ds_def nat_of_digits_digits_of)
  next
    case small
    let ?fp = "replicate (nat (- n)) 0x30 @ ds"
    have f: "format_digits (s, n) = [0x30] @ 0x2E # ?fp"
      using small kpos by (simp add: format_digits_def Let_def ds_def [symmetric] k_def [symmetric])
    have a: "number_of_token ((if neg then [0x2D] else []) @ [0x30] @ 0x2E # ?fp)
        = Some (decimal_double neg (nat_of_digits ([0x30] @ ?fp)) (- int (length ?fp)))"
      using ds by (intro number_of_token_frac) (simp_all add: list_all_replicate_zero is_digit_def)
    have b1: "nat_of_digits ([0x30] @ ?fp) = s"
      using nat_of_digits_append [of "replicate (Suc (nat (- n))) 0x30" ds]
      by (simp add: nat_of_digits_zeros ds del: replicate_Suc) (simp add: nat_of_digits_zeros ds)
    have b2: "- int (length ?fp) = n - k"
      using small by (simp add: k_def)
    show ?thesis
      unfolding f a b1 b2 by (simp add: k_def ds_def nat_of_digits_digits_of)
  next
    case exp1
    let ?ex = "digits_of (nat \<bar>n - 1\<bar>)"
    have ex: "list_all is_digit ?ex" "?ex \<noteq> []" "nat_of_digits ?ex = nat \<bar>n - 1\<bar>"
      by (simp_all add: digits_of_digits digits_of_nonempty nat_of_digits_digits_of)
    have len: "length ds = 1" using exp1 by (simp add: k_def)
    show ?thesis
    proof (cases "n - 1 < 0")
      case True
      have f: "format_digits (s, n) = ds @ 0x65 # 0x2D # ?ex"
        using exp1 True kpos by (simp add: format_digits_def Let_def ds_def [symmetric] k_def [symmetric])
      have a: "number_of_token ((if neg then [0x2D] else []) @ ds @ 0x65 # 0x2D # ?ex)
          = Some (decimal_double neg (nat_of_digits ds) (- int (nat_of_digits ?ex)))"
        using ds ex len by (intro number_of_token_exp) simp_all
      have b1: "- int (nat_of_digits ?ex) = n - k"
        using True exp1 by (simp add: nat_of_digits_digits_of)
      show ?thesis
        unfolding f a b1 by (simp add: k_def ds_def nat_of_digits_digits_of)
    next
      case False
      have f: "format_digits (s, n) = ds @ 0x65 # 0x2B # ?ex"
        using exp1 False kpos by (simp add: format_digits_def Let_def ds_def [symmetric] k_def [symmetric])
      have a: "number_of_token ((if neg then [0x2D] else []) @ ds @ 0x65 # 0x2B # ?ex)
          = Some (decimal_double neg (nat_of_digits ds) (int (nat_of_digits ?ex)))"
        using ds ex len by (intro number_of_token_exp) simp_all
      have b1: "int (nat_of_digits ?ex) = n - k"
        using False exp1 by (simp add: nat_of_digits_digits_of)
      show ?thesis
        unfolding f a b1 by (simp add: k_def ds_def nat_of_digits_digits_of)
    qed
  next
    case expk
    let ?ex = "digits_of (nat \<bar>n - 1\<bar>)"
    have ex: "list_all is_digit ?ex" "?ex \<noteq> []" "nat_of_digits ?ex = nat \<bar>n - 1\<bar>"
      by (simp_all add: digits_of_digits digits_of_nonempty nat_of_digits_digits_of)
    obtain d0 rest where dsc: "ds = d0 # rest" using ds(2) by (cases ds) auto
    have rest: "rest \<noteq> []" "list_all is_digit rest" "is_digit d0"
      using expk ds(1) by (auto simp: dsc k_def)
    have kk: "k = 1 + int (length rest)" by (simp add: k_def dsc)
    have ss: "nat_of_digits (d0 # rest) = s" using ds(4) by (simp add: dsc)
    show ?thesis
    proof (cases "n - 1 < 0")
      case True
      have f: "format_digits (s, n) = [d0] @ 0x2E # rest @ 0x65 # 0x2D # ?ex"
        using expk True kpos by (simp add: format_digits_def Let_def ds_def [symmetric] k_def [symmetric]) (simp add: dsc)
      have a: "number_of_token ((if neg then [0x2D] else []) @ [d0] @ 0x2E # rest @ 0x65 # 0x2D # ?ex)
          = Some (decimal_double neg (nat_of_digits ([d0] @ rest)) (- int (nat_of_digits ?ex) - int (length rest)))"
        using rest ex by (intro number_of_token_frac_exp) simp_all
      have b1: "- int (nat_of_digits ?ex) - int (length rest) = n - k"
        using True by (simp add: nat_of_digits_digits_of kk)
      show ?thesis
        unfolding f a b1 by (simp add: k_def ds_def ss)
    next
      case False
      have f: "format_digits (s, n) = [d0] @ 0x2E # rest @ 0x65 # 0x2B # ?ex"
        using expk False kpos by (simp add: format_digits_def Let_def ds_def [symmetric] k_def [symmetric]) (simp add: dsc)
      have a: "number_of_token ((if neg then [0x2D] else []) @ [d0] @ 0x2E # rest @ 0x65 # 0x2B # ?ex)
          = Some (decimal_double neg (nat_of_digits ([d0] @ rest)) (int (nat_of_digits ?ex) - int (length rest)))"
        using rest ex by (intro number_of_token_frac_exp) simp_all
      have b1: "int (nat_of_digits ?ex) - int (length rest) = n - k"
        using False by (simp add: nat_of_digits_digits_of kk)
      show ?thesis
        unfolding f a b1 by (simp add: k_def ds_def ss)
    qed
  qed
qed

lemma leading_zeros_bound: "0 < a \<Longrightarrow> b \<le> a * 10 ^ leading_zeros a b"
proof (induction a b rule: leading_zeros.induct)
  case (1 a b)
  show ?case
  proof (cases "b \<le> a")
    case True
    then show ?thesis by (subst leading_zeros.simps) simp
  next
    case False
    then have "b \<le> 10 * a * 10 ^ leading_zeros (10 * a) b"
      using "1.IH" "1.prems" by simp
    then show ?thesis
      using False "1.prems" by (subst leading_zeros.simps) (simp add: mult.assoc)
  qed
qed

lemma digits_of_length_lower: "0 < x \<Longrightarrow> 10 ^ (length (digits_of x) - 1) \<le> x"
proof (induction x rule: digits_of.induct)
  case (1 n)
  show ?case
  proof (cases "n < 10")
    case True
    then show ?thesis using "1.prems" by (subst digits_of.simps) simp
  next
    case False
    then have "10 ^ (length (digits_of (n div 10)) - 1) \<le> n div 10"
      using "1.IH" by simp
    then have "10 * 10 ^ (length (digits_of (n div 10)) - 1) \<le> n"
      by simp
    moreover have "length (digits_of (n div 10)) \<noteq> 0"
      using digits_of_nonempty by simp
    ultimately show ?thesis
      using False by (subst digits_of.simps) (simp add: power_Suc [symmetric] del: power_Suc)
  qed
qed

lemma decimal_exponent_lower:
  assumes "0 < a" "0 < b"
  shows "if 0 < decimal_exponent a b then b * 10 ^ nat (decimal_exponent a b - 1) \<le> a
         else b \<le> a * 10 ^ nat (1 - decimal_exponent a b)"
proof (cases "b \<le> a")
  case True
  then have pos: "0 < a div b" using assms by (simp add: div_greater_zero_iff)
  have n: "decimal_exponent a b = int (length (digits_of (a div b)))"
    using True by (simp add: decimal_exponent_def)
  have "10 ^ (length (digits_of (a div b)) - 1) \<le> a div b"
    using pos by (rule digits_of_length_lower)
  then have "b * 10 ^ (length (digits_of (a div b)) - 1) \<le> b * (a div b)"
    by simp
  also have "\<dots> \<le> a" by simp
  finally show ?thesis
    using digits_of_nonempty [of "a div b"] by (simp add: n nat_diff_distrib')
next
  case False
  have n: "decimal_exponent a b = 1 - int (leading_zeros a b)"
    using False by (simp add: decimal_exponent_def)
  have "0 < leading_zeros a b"
    using False assms by (subst leading_zeros.simps) simp
  then show ?thesis
    using leading_zeros_bound [OF assms(1), of b] by (simp add: n)
qed

lemma round_half_even_cases: "round_half_even p q = p div q \<or> round_half_even p q = p div q + 1"
  by (simp add: round_half_even_def Let_def)

lemma candidates_positive:
  assumes "0 < a" "0 < b" "0 < k" and c: "c \<in> set (candidates a b (decimal_exponent a b) k)"
  shows "0 < fst c"
proof -
  define n where "n = decimal_exponent a b"
  define d where "d = int k - n"
  define num where "num = (if 0 \<le> d then a * 10 ^ nat d else a)"
  define den where "den = (if 0 \<le> d then b else b * 10 ^ nat (- d))"
  have low: "if 0 < n then b * 10 ^ nat (n - 1) \<le> a else b \<le> a * 10 ^ nat (1 - n)"
    unfolding n_def using assms(1,2) by (rule decimal_exponent_lower)
  have den_pos: "0 < den" using assms(2) by (simp add: den_def)
  have "den \<le> num"
  proof (cases "0 \<le> d")
    case True
    show ?thesis
    proof (cases "0 < n")
      case n: True
      have "b * 1 \<le> b * 10 ^ nat (n - 1)" by (intro mult_le_mono2) simp
      also have "\<dots> \<le> a" using low n by simp
      also have "\<dots> \<le> a * 10 ^ nat d" by simp
      finally show ?thesis using True by (simp add: num_def den_def)
    next
      case n: False
      have "nat (1 - n) \<le> nat d" using assms(3) n by (simp add: d_def)
      then have "(10::nat) ^ nat (1 - n) \<le> 10 ^ nat d" by (intro power_increasing) simp_all
      then have "a * 10 ^ nat (1 - n) \<le> a * 10 ^ nat d" by simp
      moreover have "b \<le> a * 10 ^ nat (1 - n)" using low n by simp
      ultimately have "b \<le> a * 10 ^ nat d" by (rule order_trans [rotated])
      then show ?thesis using True by (simp add: num_def den_def)
    qed
  next
    case False
    then have n: "0 < n" using assms(3) by (simp add: d_def)
    have "nat (- d) \<le> nat (n - 1)" using assms(3) by (simp add: d_def)
    then have "(10::nat) ^ nat (- d) \<le> 10 ^ nat (n - 1)" by (intro power_increasing) simp_all
    then have "b * 10 ^ nat (- d) \<le> b * 10 ^ nat (n - 1)" by simp
    moreover have "b * 10 ^ nat (n - 1) \<le> a" using low n by simp
    ultimately have "b * 10 ^ nat (- d) \<le> a" by (rule order_trans)
    then show ?thesis using False by (simp add: num_def den_def)
  qed
  then have lo: "0 < num div den"
    using den_pos by (simp add: div_greater_zero_iff)
  have near: "0 < round_half_even num den"
    using round_half_even_cases [of num den] lo by auto
  define norm where "norm = (\<lambda>s::nat. if s = 10 ^ k then (1::nat, n + 1) else (s, n))"
  define far where "far = (if round_half_even num den = num div den then num div den + 1 else num div den)"
  have "candidates a b n k = [norm (round_half_even num den), norm far]"
    by (simp add: candidates_def Let_def norm_def far_def num_def den_def d_def)
  then have "c = norm (round_half_even num den) \<or> c = norm far"
    using c by (simp add: n_def)
  moreover have "0 < far" using lo by (simp add: far_def)
  moreover have "0 < fst (norm s)" if "0 < s" for s
    using that by (simp add: norm_def)
  ultimately show ?thesis
    using near by auto
qed

lemma candidates_nonempty: "candidates a b n k \<noteq> []"
  by (simp add: candidates_def Let_def)

lemma shortest_digits_candidate:
  "\<exists>k' \<ge> k. shortest_digits x a b n fuel k \<in> set (candidates a b n k')"
proof (induction fuel arbitrary: k)
  case 0
  then show ?case using candidates_nonempty [of a b n k] by (auto intro!: exI [of _ k])
next
  case (Suc fuel)
  show ?case
  proof (cases "filter (reads_as x) (candidates a b n k)")
    case Nil
    then obtain k' where "Suc k \<le> k'" "shortest_digits x a b n fuel (Suc k) \<in> set (candidates a b n k')"
      using Suc.IH by blast
    then show ?thesis using Nil by (auto intro!: exI [of _ k'])
  next
    case (Cons c cs)
    then have "c \<in> set (filter (reads_as x) (candidates a b n k))" by simp
    then have "c \<in> set (candidates a b n k)" by simp
    then show ?thesis using Cons by (auto intro!: exI [of _ k])
  qed
qed

lemma shortest_digits_positive:
  assumes "0 < a" "0 < b" "0 < k"
  shows "0 < fst (shortest_digits x a b (decimal_exponent a b) fuel k)"
proof -
  obtain k' where "k \<le> k'" "shortest_digits x a b (decimal_exponent a b) fuel k \<in> set (candidates a b (decimal_exponent a b) k')"
    using shortest_digits_candidate by blast
  moreover have "0 < k'" using assms(3) \<open>k \<le> k'\<close> by simp
  ultimately show ?thesis using candidates_positive [OF assms(1,2)] by blast
qed

lemma digit_is_number_unit: "is_digit c \<Longrightarrow> is_number_unit c"
  by (simp add: is_number_unit_def)

lemma format_digits_units: "list_all is_number_unit (format_digits (s, n))"
proof -
  have ds: "\<And>c x. c \<in> set (digits_of x) \<Longrightarrow> is_number_unit c"
    using digits_of_digits by (auto simp: list_all_iff digit_is_number_unit)
  have sp: "is_number_unit 0x30" "is_number_unit 0x2E" "is_number_unit 0x65"
    "is_number_unit 0x2D" "is_number_unit 0x2B"
    by (simp_all add: is_number_unit_def is_digit_def)
  have hd: "is_number_unit (hd (digits_of s))"
    using ds [of "hd (digits_of s)" s] digits_of_nonempty [of s] by simp
  have tl: "\<And>c. c \<in> set (tl (digits_of s)) \<Longrightarrow> is_number_unit c"
    using ds [of _ s] digits_of_nonempty [of s] by (auto dest: list.set_sel(2))
  show ?thesis
    by (auto simp: format_digits_def Let_def list_all_iff sp hd tl ds
        dest: in_set_takeD in_set_dropD)
qed

lemma format_digits_nonempty: "format_digits (s, n) \<noteq> []"
  using digits_of_nonempty [of s] by (auto simp: format_digits_def Let_def)

lemma Number_toString_units: "list_all is_number_unit (Number_toString neg m e)"
proof (cases "m = 0")
  case True
  then show ?thesis by (simp add: Number_toString_def is_number_unit_def is_digit_def)
next
  case False
  have "list_all is_number_unit (format_digits p)" for p
    using format_digits_units [of "fst p" "snd p"] by simp
  then show ?thesis
    using False by (simp add: Number_toString_def Let_def is_number_unit_def)
qed

lemma Number_toString_nonempty: "Number_toString neg m e \<noteq> []"
proof -
  have "format_digits p \<noteq> []" for p
    using format_digits_nonempty [of "fst p" "snd p"] by simp
  then show ?thesis
    by (simp add: Number_toString_def Let_def)
qed

lemma Number_toString_reads: "\<exists>y. number_of_token (Number_toString neg m e) = Some y"
proof (cases "m = 0")
  case True
  have "number_of_token ((if False then [0x2D] else []) @ [0x30]) = Some (decimal_double False (nat_of_digits [0x30]) 0)"
    by (intro number_of_token_int) (simp_all add: is_digit_def)
  then show ?thesis using True by (simp add: Number_toString_def)
next
  case False
  define a where "a = (if 0 \<le> e then m * 2 ^ nat e else m)"
  define b where "b = (if 0 \<le> e then 1 else (2::nat) ^ nat (- e))"
  define n where "n = decimal_exponent a b"
  define p where "p = shortest_digits (Finite False m e) a b n (nat (max n (n - e)) - 1) 1"
  have "0 < a" "0 < b" using False by (simp_all add: a_def b_def)
  then have "0 < fst p"
    unfolding p_def n_def by (intro shortest_digits_positive) simp_all
  then have "number_of_token ((if neg then [0x2D] else []) @ format_digits (fst p, snd p))
      = Some (decimal_double neg (fst p) (snd p - int (length (digits_of (fst p)))))"
    by (rule format_digits_value)
  moreover have "Number_toString neg m e = (if neg then [0x2D] else []) @ format_digits p"
    using False by (simp add: Number_toString_def Let_def a_def b_def n_def p_def)
  ultimately show ?thesis by simp
qed

lemma reread_number_Finite: "\<exists>y. reread_number (Finite neg m e) = JNumber y"
  using Number_toString_reads [of neg m e] by (auto simp: reread_number_def)

lemma number_unit_plain:
  assumes "is_number_unit c"
  shows "\<not> is_whitespace c" "c \<noteq> 0x7B" "c \<noteq> 0x7D" "c \<noteq> 0x5B" "c \<noteq> 0x5D" "c \<noteq> 0x3A"
    "c \<noteq> 0x2C" "c \<noteq> 0x22" "c \<noteq> 0x74" "c \<noteq> 0x66" "c \<noteq> 0x6E"
  using assms by (auto simp: is_number_unit_def is_digit_def is_whitespace_def word_le_nat_alt)

lemma lexer_number_unit:
  "is_number_unit c \<Longrightarrow>
   lexer (c # cs) =
     (case number_of_token (c # takeWhile is_number_unit cs) of
        None \<Rightarrow> None
      | Some x \<Rightarrow> cons_token (Prim (JNumber x)) (lexer (dropWhile is_number_unit cs)))"
  using number_unit_plain [of c] by simp

lemma lexer_Number_toString:
  assumes "rest = [] \<or> \<not> is_number_unit (hd rest)"
  shows "lexer (Number_toString neg m e @ rest)
       = cons_token (Prim (reread_number (Finite neg m e))) (lexer rest)"
proof -
  obtain c cs where tok: "Number_toString neg m e = c # cs"
    using Number_toString_nonempty [of neg m e] by (cases "Number_toString neg m e") auto
  have units: "is_number_unit c" "list_all is_number_unit cs"
    using Number_toString_units [of neg m e] by (simp_all add: tok)
  have t: "takeWhile is_number_unit (cs @ rest) = cs" and d: "dropWhile is_number_unit (cs @ rest) = rest"
    using units(2) assms by (cases rest; auto simp: list_all_iff)+
  obtain y where y: "number_of_token (c # cs) = Some y"
    using Number_toString_reads [of neg m e] by (auto simp: tok)
  then have "reread_number (Finite neg m e) = JNumber y"
    by (simp add: reread_number_def tok)
  then show ?thesis
    using units(1) y by (simp add: tok lexer_number_unit t d del: lexer.simps)
qed

lemma cons_token_map: "cons_token t res = map_option ((#) t) res"
  by (simp add: cons_token_def split: option.splits)

lemma lexer_punctuation:
  "lexer (0x7B # cs) = map_option ((#) LBrace) (lexer cs)"
  "lexer (0x7D # cs) = map_option ((#) RBrace) (lexer cs)"
  "lexer (0x5B # cs) = map_option ((#) LBracket) (lexer cs)"
  "lexer (0x5D # cs) = map_option ((#) RBracket) (lexer cs)"
  "lexer (0x3A # cs) = map_option ((#) Colon) (lexer cs)"
  "lexer (0x2C # cs) = map_option ((#) Comma) (lexer cs)"
  by (simp_all add: is_whitespace_def cons_token_map)

lemma lexer_QuoteJSONString:
  "lexer (QuoteJSONString s @ rest) = map_option ((#) (Prim (JString s))) (lexer rest)"
  by (simp add: QuoteJSONString_def is_whitespace_def scan_quote_units cons_token_map
      del: scan_string.simps)

lemma lexer_literals:
  "lexer (ascii ''null'' @ rest) = map_option ((#) (Prim JNull)) (lexer rest)"
  "lexer (ascii ''true'' @ rest) = map_option ((#) (Prim (JBool True))) (lexer rest)"
  "lexer (ascii ''false'' @ rest) = map_option ((#) (Prim (JBool False))) (lexer rest)"
  by (simp_all add: ascii_def is_whitespace_def cons_token_map)

lemma separated_simps [simp]:
  "separated []" "separated (0x2C # r)" "separated (0x5D # r)" "separated (0x7D # r)"
  by (simp_all add: separated_def is_number_unit_def is_digit_def)

lemma lexer_join:
  assumes "\<And>x r. x \<in> set xs \<Longrightarrow> separated r \<Longrightarrow> lexer (f x @ r) = map_option ((@) (g x)) (lexer r)"
    and "separated r"
  shows "lexer (join 0x2C (map f xs) @ r) = map_option ((@) (join Comma (map g xs))) (lexer r)"
  using assms
proof (induction xs rule: induct_list012)
  case 1
  then show ?case by (simp add: option.map_ident [unfolded id_def])
next
  case (2 x)
  then show ?case by simp
next
  case (3 x y zs)
  have "lexer (f x @ 0x2C # join 0x2C (map f (y # zs)) @ r)
      = map_option ((@) (g x)) (lexer (0x2C # join 0x2C (map f (y # zs)) @ r))"
    using "3.prems"(1) [of x "0x2C # join 0x2C (map f (y # zs)) @ r"] by simp
  also have "lexer (0x2C # join 0x2C (map f (y # zs)) @ r)
      = map_option ((#) Comma) (lexer (join 0x2C (map f (y # zs)) @ r))"
    by (rule lexer_punctuation)
  also have "lexer (join 0x2C (map f (y # zs)) @ r)
      = map_option ((@) (join Comma (map g (y # zs)))) (lexer r)"
    using "3.IH"(2) "3.prems" by simp
  finally show ?case
    by (simp add: option.map_comp comp_def)
qed

lemma lexer_stringify:
  "separated rest \<Longrightarrow> lexer (JSON_stringify v @ rest) = map_option ((@) (tokens v)) (lexer rest)"
proof (induction v arbitrary: rest)
  case JNull
  then show ?case by (simp add: lexer_literals del: lexer.simps)
next
  case (JBool b)
  then show ?case by (simp add: lexer_literals del: lexer.simps)
next
  case (JNumber x)
  show ?case
  proof (cases x)
    case (Finite neg m e)
    then show ?thesis
      using JNumber lexer_Number_toString [of rest neg m e]
      by (simp add: separated_def cons_token_map del: lexer.simps)
  next
    case (Infinity neg)
    then show ?thesis
      by (simp add: lexer_literals reread_number_def del: lexer.simps)
  qed
next
  case (JString s)
  then show ?case by (simp add: lexer_QuoteJSONString del: lexer.simps)
next
  case (JArray xs)
  have "lexer (join 0x2C (map JSON_stringify xs) @ 0x5D # rest)
      = map_option ((@) (join Comma (map tokens xs))) (lexer (0x5D # rest))"
    using JArray.IH by (intro lexer_join) simp_all
  then show ?case
    by (simp add: lexer_punctuation option.map_comp comp_def del: lexer.simps)
next
  case (JObject kvs)
  let ?f = "\<lambda>kv. QuoteJSONString (fst kv) @ 0x3A # JSON_stringify (snd kv)"
  let ?g = "\<lambda>kv. Prim (JString (fst kv)) # Colon # tokens (snd kv)"
  have member: "lexer (?f kv @ r) = map_option ((@) (?g kv)) (lexer r)"
    if "kv \<in> set kvs" "separated r" for kv r
  proof -
    have "lexer (JSON_stringify (snd kv) @ r) = map_option ((@) (tokens (snd kv))) (lexer r)"
      using JObject.IH [of kv "snd kv" r] that by (cases kv) auto
    then show ?thesis
      by (cases "lexer r") (simp_all add: lexer_QuoteJSONString lexer_punctuation del: lexer.simps)
  qed
  have "lexer (join 0x2C (map ?f kvs) @ 0x7D # rest)
      = map_option ((@) (join Comma (map ?g kvs))) (lexer (0x7D # rest))"
    using member by (intro lexer_join) simp_all
  then show ?case
    by (simp add: lexer_punctuation option.map_comp comp_def del: lexer.simps)
qed

lemma join_Cons: "join sep (x # xs) = x @ concat (map ((#) sep) xs)"
  by (induction xs arbitrary: x) simp_all

lemma parse_value_Prim: "parse_value stk (Prim v # ts) = parse_after stk v ts"
  by simp

lemma parse_value_array:
  "parse_value stk (LBracket # RBracket # ts) = parse_after stk (JArray []) ts"
  "t \<noteq> RBracket \<Longrightarrow> parse_value stk (LBracket # t # ts) = parse_value (InArray [] # stk) (t # ts)"
  by (cases t; simp)+

lemma parse_value_object:
  "parse_value stk (LBrace # RBrace # ts) = parse_after stk (JObject []) ts"
  "parse_value stk (LBrace # Prim (JString k) # Colon # ts) = parse_value (InObject [] k # stk) ts"
  by simp_all

lemma parse_after_array:
  "parse_after (InArray acc # stk) v (Comma # ts) = parse_value (InArray (acc @ [v]) # stk) ts"
  "parse_after (InArray acc # stk) v (RBracket # ts) = parse_after stk (JArray (acc @ [v])) ts"
  by simp_all

lemma parse_after_object:
  "parse_after (InObject acc k # stk) v (Comma # Prim (JString k') # Colon # ts)
     = parse_value (InObject (put k v acc) k' # stk) ts"
  "parse_after (InObject acc k # stk) v (RBrace # ts) = parse_after stk (JObject (put k v acc)) ts"
  by simp_all

lemma tokens_head: "\<exists>t r. tokens v = t # r \<and> t \<noteq> RBracket"
  by (cases v) auto

lemma parse_elements:
  assumes "\<And>y stk ts. y \<in> set (x # xs) \<Longrightarrow> parse_value stk (tokens y @ ts) = parse_after stk (reread y) ts"
  shows "parse_value (InArray acc # stk) (tokens x @ concat (map ((#) Comma) (map tokens xs)) @ RBracket # ts)
       = parse_after stk (JArray (acc @ reread x # map reread xs)) ts"
  using assms
proof (induction xs arbitrary: x acc)
  case Nil
  then show ?case by (simp add: parse_after_array del: parse_value.simps parse_after.simps)
next
  case (Cons y ys)
  have "parse_value (InArray (acc @ [reread x]) # stk)
          (tokens y @ concat (map ((#) Comma) (map tokens ys)) @ RBracket # ts)
      = parse_after stk (JArray ((acc @ [reread x]) @ reread y # map reread ys)) ts"
    using Cons.prems by (intro Cons.IH) simp
  then show ?case
    using Cons.prems [of x]
    by (simp add: parse_after_array del: parse_value.simps parse_after.simps)
qed

lemma parse_members:
  assumes "\<And>y stk ts. y \<in> set (kv # kvs) \<Longrightarrow>
             parse_value stk (tokens (snd y) @ ts) = parse_after stk (reread (snd y)) ts"
  shows "parse_value (InObject acc (fst kv) # stk)
           (tokens (snd kv)
            @ concat (map ((#) Comma) (map (\<lambda>kv. Prim (JString (fst kv)) # Colon # tokens (snd kv)) kvs))
            @ RBrace # ts)
       = parse_after stk (JObject (foldl (\<lambda>acc kv. put (fst kv) (reread (snd kv)) acc) acc (kv # kvs))) ts"
  using assms
proof (induction kvs arbitrary: kv acc)
  case Nil
  then show ?case by (simp add: parse_after_object del: parse_value.simps parse_after.simps)
next
  case (Cons y ys)
  have "parse_value (InObject (put (fst kv) (reread (snd kv)) acc) (fst y) # stk)
          (tokens (snd y)
           @ concat (map ((#) Comma) (map (\<lambda>kv. Prim (JString (fst kv)) # Colon # tokens (snd kv)) ys))
           @ RBrace # ts)
      = parse_after stk (JObject (foldl (\<lambda>acc kv. put (fst kv) (reread (snd kv)) acc)
            (put (fst kv) (reread (snd kv)) acc) (y # ys))) ts"
    using Cons.prems by (intro Cons.IH) simp
  then show ?case
    using Cons.prems [of kv]
    by (simp add: parse_after_object del: parse_value.simps parse_after.simps)
qed

lemma parse_tokens: "parse_value stk (tokens v @ ts) = parse_after stk (reread v) ts"
proof (induction v arbitrary: stk ts)
  case (JArray xs)
  show ?case
  proof (cases xs)
    case Nil
    then show ?thesis by (simp add: parse_value_array del: parse_value.simps)
  next
    case (Cons x xs')
    obtain t r where t: "tokens x = t # r" "t \<noteq> RBracket"
      using tokens_head by blast
    have "parse_value (InArray [] # stk) (tokens x @ concat (map ((#) Comma) (map tokens xs')) @ RBracket # ts)
        = parse_after stk (JArray ([] @ reread x # map reread xs')) ts"
      using JArray.IH Cons by (intro parse_elements) simp
    then show ?thesis
      using t by (simp add: Cons join_Cons parse_value_array del: parse_value.simps)
  qed
next
  case (JObject kvs)
  show ?case
  proof (cases kvs)
    case Nil
    then show ?thesis by (simp add: parse_value_object del: parse_value.simps)
  next
    case (Cons kv kvs')
    have ih: "parse_value stk (tokens (snd y) @ ts) = parse_after stk (reread (snd y)) ts"
      if "y \<in> set (kv # kvs')" for y stk ts
      using JObject.IH [of y "snd y" stk ts] that Cons by (cases y) auto
    have "parse_value (InObject [] (fst kv) # stk)
           (tokens (snd kv)
            @ concat (map ((#) Comma) (map (\<lambda>kv. Prim (JString (fst kv)) # Colon # tokens (snd kv)) kvs'))
            @ RBrace # ts)
       = parse_after stk (JObject (foldl (\<lambda>acc kv. put (fst kv) (reread (snd kv)) acc) [] (kv # kvs'))) ts"
      using ih by (intro parse_members) simp
    then show ?thesis
      by (simp add: Cons join_Cons parse_value_object del: parse_value.simps)
  qed
qed (simp_all del: parse_after.simps)

lemma JSON_parse_stringify: "JSON_parse (JSON_stringify v) = Some (reread v)"
proof -
  have "lexer (JSON_stringify v @ []) = map_option ((@) (tokens v)) (lexer [])"
    by (intro lexer_stringify) simp
  then have "lexer (JSON_stringify v) = Some (tokens v)"
    by simp
  moreover have "parse_value [] (tokens v @ []) = parse_after [] (reread v) []"
    by (rule parse_tokens)
  ultimately show ?thesis
    by (simp add: JSON_parse_def)
qed

lemma put_new_last:
  assumes "ordered_keys (map fst acc @ [k])"
  shows "put k v acc = acc @ [(k, v)]"
proof -
  have new: "k \<notin> set (map fst acc)" and before: "\<forall>x \<in> set (map fst acc). key_order x k"
    using assms by (auto simp: ordered_keys_def sorted_wrt_append)
  show ?thesis
  proof (cases "is_array_index k")
    case True
    then have "\<forall>kv \<in> set acc. index_before k kv"
      using before by (auto simp: key_order_def index_before_def)
    then have "takeWhile (index_before k) acc = acc" "dropWhile (index_before k) acc = []"
      by simp_all
    then show ?thesis using new True by (simp add: put_def)
  next
    case False
    then show ?thesis using new by (simp add: put_def)
  qed
qed

lemma ordered_keys_prefix: "ordered_keys (xs @ ys) \<Longrightarrow> ordered_keys xs"
  by (simp add: ordered_keys_def sorted_wrt_append)

lemma foldl_put_ordered:
  assumes "ordered_keys (map fst (acc @ kvs))"
    and "\<And>kv. kv \<in> set kvs \<Longrightarrow> f (snd kv) = snd kv"
  shows "foldl (\<lambda>acc kv. put (fst kv) (f (snd kv)) acc) acc kvs = acc @ kvs"
  using assms
proof (induction kvs arbitrary: acc)
  case Nil
  then show ?case by simp
next
  case (Cons kv kvs)
  have "ordered_keys (map fst acc @ [fst kv])"
    using Cons.prems(1) ordered_keys_prefix [of "map fst acc @ [fst kv]" "map fst kvs"] by simp
  then have "put (fst kv) (snd kv) acc = acc @ [kv]"
    using put_new_last [of acc "fst kv" "snd kv"] by simp
  moreover have "foldl (\<lambda>acc kv. put (fst kv) (f (snd kv)) acc) (acc @ [kv]) kvs = (acc @ [kv]) @ kvs"
    using Cons.prems by (intro Cons.IH) simp_all
  ultimately show ?case
    using Cons.prems(2) [of kv] by simp
qed

lemma reread_ordered: "ordered v \<Longrightarrow> numbers_survive v \<Longrightarrow> reread v = v"
proof (induction v)
  case (JNumber x)
  then show ?case by (simp add: number_survives_def)
next
  case (JArray xs)
  then show ?case by (simp add: list_all_iff map_idI)
next
  case (JObject kvs)
  have "reread (snd kv) = snd kv" if "kv \<in> set kvs" for kv
    using JObject.IH [of kv "snd kv"] JObject.prems that by (cases kv) (force simp: list_all_iff)
  then have "foldl (\<lambda>acc kv. put (fst kv) (reread (snd kv)) acc) [] kvs = [] @ kvs"
    using JObject.prems(1) by (intro foldl_put_ordered) simp_all
  then show ?case by simp
qed simp_all

lemma digit_char_digit_value: "is_digit c \<Longrightarrow> digit_char (digit_value c) = c"
proof -
  assume "is_digit c"
  then have "48 \<le> unat c" "unat c \<le> 57"
    by (simp_all add: is_digit_def word_le_nat_alt)
  then have "unat (digit_char (digit_value c)) = unat c"
    by (simp add: digit_value_def unat_digit_char)
  then show ?thesis by (simp add: word_unat_eq_iff)
qed

lemma digit_value_less: "is_digit c \<Longrightarrow> digit_value c < 10"
  by (auto simp: is_digit_def word_le_nat_alt digit_value_def)

lemma digits_of_step: "0 < n \<Longrightarrow> d < 10 \<Longrightarrow> digits_of (10 * n + d) = digits_of n @ [digit_char d]"
  by (subst digits_of.simps) simp

lemma digits_of_nat_of_digits:
  "list_all is_digit k \<Longrightarrow> k \<noteq> [] \<Longrightarrow> hd k \<noteq> 0x30 \<or> length k = 1 \<Longrightarrow> digits_of (nat_of_digits k) = k"
proof (induction k rule: rev_induct)
  case Nil
  then show ?case by simp
next
  case (snoc c ks)
  have c: "is_digit c" using snoc.prems(1) by simp
  show ?case
  proof (cases "ks = []")
    case True
    then show ?thesis
      using c by (subst digits_of.simps)
        (simp add: nat_of_digits_def digit_value_less digit_char_digit_value)
  next
    case False
    then have hd: "hd ks \<noteq> 0x30" using snoc.prems(3) by simp
    have ih: "digits_of (nat_of_digits ks) = ks"
      using snoc.prems(1) False hd by (intro snoc.IH) simp_all
    have "nat_of_digits ks \<noteq> 0"
    proof
      assume "nat_of_digits ks = 0"
      then have "ks = digits_of 0" using ih by simp
      then have "ks = [0x30]" by (subst (asm) digits_of.simps) (simp add: digit_char_def)
      then show False using hd by simp
    qed
    then show ?thesis
      using c ih by (simp add: nat_of_digits_snoc digits_of_step digit_value_less digit_char_digit_value)
  qed
qed

lemma array_index_inj:
  assumes "is_array_index k" "is_array_index k'" "nat_of_digits k = nat_of_digits k'"
  shows "k = k'"
proof -
  have k: "list_all is_digit k" "k \<noteq> []" "hd k \<noteq> 0x30 \<or> length k = 1"
    using assms(1) unfolding is_array_index_def by blast+
  have k': "list_all is_digit k'" "k' \<noteq> []" "hd k' \<noteq> 0x30 \<or> length k' = 1"
    using assms(2) unfolding is_array_index_def by blast+
  have "digits_of (nat_of_digits k) = k"
    using k by (rule digits_of_nat_of_digits)
  moreover have "digits_of (nat_of_digits k') = k'"
    using k' by (rule digits_of_nat_of_digits)
  ultimately show ?thesis using assms(3) by metis
qed

lemma put_keys_same:
  "k \<in> set (map fst acc) \<Longrightarrow> map fst (put k v acc) = map fst acc"
  by (simp add: put_def comp_def)

lemma put_ordered:
  assumes "ordered_keys (map fst acc)"
  shows "ordered_keys (map fst (put k v acc))"
proof (cases "k \<in> set (map fst acc)")
  case True
  then show ?thesis using assms by (simp add: put_keys_same)
next
  case new: False
  show ?thesis
  proof (cases "is_array_index k")
    case False
    then show ?thesis
      using assms new by (auto simp: put_def ordered_keys_def sorted_wrt_append key_order_def)
  next
    case True
    let ?P = "index_before k"
    let ?xs = "takeWhile ?P acc" and ?ys = "dropWhile ?P acc"
    have split: "acc = ?xs @ ?ys" by simp
    have dist: "distinct (map fst ?xs @ map fst ?ys)"
      using assms by (simp add: ordered_keys_def map_append [symmetric] del: map_append)
    have srt: "sorted_wrt key_order (map fst ?xs @ map fst ?ys)"
      using assms by (simp add: ordered_keys_def map_append [symmetric] del: map_append)
    have notin: "k \<notin> set (map fst ?xs)" "k \<notin> set (map fst ?ys)"
      using new split by (metis Un_iff map_append set_append)+
    have xs: "\<forall>x \<in> set ?xs. key_order (fst x) k"
      by (auto simp: key_order_def index_before_def dest: set_takeWhileD)
    have ys: "key_order k (fst y)" if y: "y \<in> set ?ys" for y
    proof (cases ?ys)
      case Nil
      show ?thesis using y unfolding Nil by simp
    next
      case (Cons y0 ys')
      have not0: "\<not> ?P y0"
        using Cons by (metis hd_dropWhile list.distinct(1) list.sel(1))
      have y0: "key_order k (fst y0)"
      proof (cases "is_array_index (fst y0)")
        case False
        then show ?thesis by (simp add: key_order_def)
      next
        case idx: True
        then have "nat_of_digits k \<le> nat_of_digits (fst y0)"
          using not0 by (simp add: index_before_def)
        moreover have "fst y0 \<noteq> k"
          using notin(2) Cons by auto
        then have "nat_of_digits k \<noteq> nat_of_digits (fst y0)"
          using array_index_inj [OF True idx] by auto
        ultimately show ?thesis using True by (simp add: key_order_def)
      qed
      show ?thesis
      proof (cases "y = y0")
        case True
        then show ?thesis using y0 by simp
      next
        case False
        then have "y \<in> set ys'" using y Cons by simp
        moreover have "sorted_wrt key_order (map fst (y0 # ys'))"
          using srt Cons by (simp add: sorted_wrt_append)
        ultimately have "key_order (fst y0) (fst y)" by auto
        then show ?thesis
          using y0 by (auto simp: key_order_def)
      qed
    qed
    have "map fst (put k v acc) = map fst ?xs @ k # map fst ?ys"
      using new True by (simp add: put_def)
    moreover have "distinct (map fst ?xs @ k # map fst ?ys)"
      using dist notin by auto
    moreover have "sorted_wrt key_order (map fst ?xs @ k # map fst ?ys)"
      using srt xs ys by (auto simp: sorted_wrt_append)
    ultimately show ?thesis by (simp add: ordered_keys_def)
  qed
qed

lemma put_ordered_object:
  "ordered (JObject acc) \<Longrightarrow> ordered v \<Longrightarrow> ordered (JObject (put k v acc))"
proof -
  assume a: "ordered (JObject acc)" and v: "ordered v"
  have "snd kv = v \<or> kv \<in> set acc" if "kv \<in> set (put k v acc)" for kv
    using that by (auto simp: put_def split: if_splits dest: set_takeWhileD set_dropWhileD)
  then have "list_all (\<lambda>kv. ordered (snd kv)) (put k v acc)"
    using a v by (auto simp: list_all_iff)
  then show ?thesis
    using a put_ordered [of acc k v] by simp
qed

lemma parse_value_cases:
  assumes "parse_value stk ts = Some v"
  obtains (prim) p ts' where "ts = Prim p # ts'" "parse_after stk p ts' = Some v"
    | (empty_array) ts' where "ts = LBracket # RBracket # ts'" "parse_after stk (JArray []) ts' = Some v"
    | (array) ts' where "ts = LBracket # ts'" "parse_value (InArray [] # stk) ts' = Some v"
    | (empty_object) ts' where "ts = LBrace # RBrace # ts'" "parse_after stk (JObject []) ts' = Some v"
    | (object) k ts' where "ts = LBrace # Prim (JString k) # Colon # ts'"
        "parse_value (InObject [] k # stk) ts' = Some v"
proof (cases ts)
  case Nil
  then show ?thesis using assms by simp
next
  case (Cons t ts1)
  show ?thesis
  proof (cases t)
    case (Prim p)
    then show ?thesis using assms Cons prim by simp
  next
    case LBracket
    show ?thesis
    proof (cases "\<exists>ts'. ts1 = RBracket # ts'")
      case True
      then show ?thesis using assms Cons LBracket empty_array by auto
    next
      case False
      then have "parse_value stk (LBracket # ts1) = parse_value (InArray [] # stk) ts1"
        by (cases ts1; simp split: token.splits)
      then show ?thesis using assms Cons LBracket array by simp
    qed
  next
    case LBrace
    show ?thesis
    proof (cases ts1)
      case Nil
      then show ?thesis using assms Cons LBrace by simp
    next
      case c2: (Cons t2 ts2)
      show ?thesis
      proof (cases t2)
        case RBrace
        then show ?thesis using assms Cons LBrace c2 empty_object by simp
      next
        case (Prim p)
        show ?thesis
        proof (cases p)
          case (JString k)
          show ?thesis
          proof (cases ts2)
            case Nil
            then show ?thesis using assms Cons LBrace c2 Prim JString by simp
          next
            case c3: (Cons t3 ts3)
            then show ?thesis
              using assms Cons LBrace c2 Prim JString object by (cases t3) simp_all
          qed
        qed (use assms Cons LBrace c2 Prim in simp_all)
      qed (use assms Cons LBrace c2 in simp_all)
    qed
  qed (use assms Cons in simp_all)
qed

lemma parse_after_cases:
  assumes "parse_after stk v0 ts = Some v"
  obtains (finished) "stk = []" "ts = []" "v = v0"
    | (next_element) acc stk' ts' where "stk = InArray acc # stk'" "ts = Comma # ts'"
        "parse_value (InArray (acc @ [v0]) # stk') ts' = Some v"
    | (end_array) acc stk' ts' where "stk = InArray acc # stk'" "ts = RBracket # ts'"
        "parse_after stk' (JArray (acc @ [v0])) ts' = Some v"
    | (next_member) acc k stk' k' ts' where "stk = InObject acc k # stk'"
        "ts = Comma # Prim (JString k') # Colon # ts'"
        "parse_value (InObject (put k v0 acc) k' # stk') ts' = Some v"
    | (end_object) acc k stk' ts' where "stk = InObject acc k # stk'" "ts = RBrace # ts'"
        "parse_after stk' (JObject (put k v0 acc)) ts' = Some v"
proof (cases stk)
  case Nil
  then show ?thesis using assms finished by (auto split: if_splits)
next
  case (Cons fr stk')
  show ?thesis
  proof (cases fr)
    case (InArray acc)
    show ?thesis
    proof (cases ts)
      case Nil
      then show ?thesis using assms Cons InArray by simp
    next
      case c: (Cons t ts')
      then show ?thesis
        using assms Cons InArray next_element end_array by (cases t) simp_all
    qed
  next
    case (InObject acc k)
    show ?thesis
    proof (cases ts)
      case Nil
      then show ?thesis using assms Cons InObject by simp
    next
      case c: (Cons t ts1)
      show ?thesis
      proof (cases t)
        case RBrace
        then show ?thesis using assms Cons InObject c end_object by simp
      next
        case Comma
        show ?thesis
        proof (cases ts1)
          case Nil
          then show ?thesis using assms Cons InObject c Comma by simp
        next
          case c2: (Cons t2 ts2)
          show ?thesis
          proof (cases t2)
            case (Prim p)
            show ?thesis
            proof (cases p)
              case (JString k')
              show ?thesis
              proof (cases ts2)
                case Nil
                then show ?thesis using assms Cons InObject c Comma c2 Prim JString by simp
              next
                case c3: (Cons t3 ts3)
                then show ?thesis
                  using assms Cons InObject c Comma c2 Prim JString next_member by (cases t3) simp_all
              qed
            qed (use assms Cons InObject c Comma c2 Prim in simp_all)
          qed (use assms Cons InObject c Comma c2 in simp_all)
        qed
      qed (use assms Cons InObject c in simp_all)
    qed
  qed
qed

lemma parse_ordered_aux:
  "length ts \<le> n \<Longrightarrow> list_all frame_ordered stk \<Longrightarrow> list_all token_ordered ts \<Longrightarrow>
   (parse_value stk ts = Some v \<longrightarrow> ordered v) \<and>
   (ordered v0 \<longrightarrow> parse_after stk v0 ts = Some v \<longrightarrow> ordered v)"
proof (induction n arbitrary: ts stk v0)
  case 0
  then have "ts = []" by simp
  then show ?case by (auto elim: parse_after_cases)
next
  case (Suc n)
  note frames = Suc.prems(2) and toks = Suc.prems(3)
  have val_ok: "ordered v" if "parse_value stk' ts' = Some v" "length ts' \<le> n"
    "list_all frame_ordered stk'" "list_all token_ordered ts'" for stk' ts'
    using Suc.IH [of ts' stk'] that by blast
  have after: "ordered v" if "parse_after stk' v' ts' = Some v" "length ts' \<le> n"
    "list_all frame_ordered stk'" "list_all token_ordered ts'" "ordered v'" for stk' ts' v'
    using Suc.IH [of ts' stk' v'] that by blast
  have "ordered v" if p: "parse_value stk ts = Some v"
    using p
  proof (cases rule: parse_value_cases)
    case (prim p ts')
    then show ?thesis using after [of stk p ts'] Suc.prems by simp
  next
    case (empty_array ts')
    then show ?thesis using after [of stk "JArray []" ts'] Suc.prems by simp
  next
    case (array ts')
    then show ?thesis using val_ok [of "InArray [] # stk" ts'] Suc.prems by simp
  next
    case (empty_object ts')
    then show ?thesis using after [of stk "JObject []" ts'] Suc.prems by (simp add: ordered_keys_def)
  next
    case (object k ts')
    then show ?thesis using val_ok [of "InObject [] k # stk" ts'] Suc.prems by (simp add: ordered_keys_def)
  qed
  moreover have "ordered v" if p: "parse_after stk v0 ts = Some v" and v0: "ordered v0"
    using p
  proof (cases rule: parse_after_cases)
    case finished
    then show ?thesis using v0 by simp
  next
    case (next_element acc stk' ts')
    then show ?thesis using val_ok [of "InArray (acc @ [v0]) # stk'" ts'] Suc.prems v0 by simp
  next
    case (end_array acc stk' ts')
    then show ?thesis using after [of stk' "JArray (acc @ [v0])" ts'] Suc.prems v0 by simp
  next
    case (next_member acc k stk' k' ts')
    then have "ordered (JObject (put k v0 acc))"
      using frames v0 by (intro put_ordered_object) simp_all
    then show ?thesis
      using next_member val_ok [of "InObject (put k v0 acc) k' # stk'" ts'] Suc.prems
      by (simp del: ordered.simps)
  next
    case (end_object acc k stk' ts')
    then have "ordered (JObject (put k v0 acc))"
      using frames v0 by (intro put_ordered_object) simp_all
    then show ?thesis
      using end_object after [of stk' "JObject (put k v0 acc)" ts'] Suc.prems
      by (simp del: ordered.simps)
  qed
  ultimately show ?case by blast
qed

lemma lexer_step:
  assumes "lexer (c # cs) = Some ts"
  shows "lexer cs = Some ts
       \<or> (\<exists>t r ts'. ts = t # ts' \<and> token_ordered t \<and> lexer r = Some ts' \<and> length r \<le> length cs)"
proof -
  have tok: "\<exists>t r ts'. ts = t # ts' \<and> token_ordered t \<and> lexer r = Some ts' \<and> length r \<le> length cs"
    if "cons_token t0 (lexer r0) = Some ts" "token_ordered t0" "length r0 \<le> length cs" for t0 r0
    using that by (auto simp: cons_token_def split: option.splits)
  show ?thesis
  proof (cases "is_whitespace c")
    case True
    then show ?thesis using assms by simp
  next
    case ws: False
    consider (punct) t where "token_ordered t" "cons_token t (lexer cs) = Some ts"
      | (str) s r where "scan_string cs = Some (s, r)" "cons_token (Prim (JString s)) (lexer r) = Some ts"
      | (lit) p n where "ordered p" "cons_token (Prim p) (lexer (drop n cs)) = Some ts"
      | (num) x where "cons_token (Prim (JNumber x)) (lexer (dropWhile is_number_unit cs)) = Some ts"
      using assms ws
      by (simp split: if_splits option.splits) (force+)
    then show ?thesis
    proof cases
      case (punct t)
      then show ?thesis using tok [of t cs] by simp
    next
      case (str s r)
      then show ?thesis using tok [of "Prim (JString s)" r] scan_string_length [of cs s r] by simp
    next
      case (lit p n)
      then show ?thesis using tok [of "Prim p" "drop n cs"] by simp
    next
      case (num x)
      then show ?thesis
        using tok [of "Prim (JNumber x)" "dropWhile is_number_unit cs"]
        by (simp add: length_dropWhile_le)
    qed
  qed
qed

lemma lexer_ordered: "lexer cs = Some ts \<Longrightarrow> list_all token_ordered ts"
proof (induction "length cs" arbitrary: cs ts rule: less_induct)
  case less
  show ?case
  proof (cases cs)
    case Nil
    then show ?thesis using less.prems by simp
  next
    case (Cons c cs')
    then consider "lexer cs' = Some ts"
      | t r ts' where "ts = t # ts'" "token_ordered t" "lexer r = Some ts'" "length r \<le> length cs'"
      using lexer_step [of c cs' ts] less.prems by blast
    then show ?thesis
    proof cases
      case 1
      then show ?thesis using less.hyps [of cs' ts] Cons by simp
    next
      case 2
      then show ?thesis using less.hyps [of r ts'] Cons by simp
    qed
  qed
qed

lemma JSON_parse_ordered: "JSON_parse t = Some v \<Longrightarrow> ordered v"
proof -
  assume "JSON_parse t = Some v"
  then obtain ts where ts: "lexer t = Some ts" "parse_value [] ts = Some v"
    by (auto simp: JSON_parse_def split: option.splits)
  then show ?thesis
    using parse_ordered_aux [of ts "length ts" "[]" v] lexer_ordered [of t ts] by simp
qed

lemma bit_length_bounds: "0 < n \<Longrightarrow> 2 ^ (bit_length n - 1) \<le> n \<and> n < 2 ^ bit_length n"
proof (induction n rule: bit_length.induct)
  case (1 n)
  show ?case
  proof (cases "n div 2 = 0")
    case True
    then have "n = 1" using "1.prems" by (simp add: div_eq_0_iff)
    then show ?thesis by (simp add: bit_length.simps)
  next
    case False
    then have ih: "2 ^ (bit_length (n div 2) - 1) \<le> n div 2" "n div 2 < 2 ^ bit_length (n div 2)"
      using "1.IH" "1.prems" by simp_all
    have pos: "0 < bit_length (n div 2)"
      using False by (subst bit_length.simps) simp
    have bl: "bit_length n = Suc (bit_length (n div 2))"
      using "1.prems" by (subst bit_length.simps) simp
    have "2 * 2 ^ (bit_length (n div 2) - 1) \<le> n" using ih(1) by simp
    then have lo: "2 ^ bit_length (n div 2) \<le> n"
      using pos by (cases "bit_length (n div 2)") simp_all
    have hi: "n < 2 * 2 ^ bit_length (n div 2)" using ih(2) by simp
    show ?thesis using lo hi by (simp add: bl)
  qed
qed

lemma round_double_overflow:
  assumes "0 < b" "b * 2 ^ 1024 \<le> a"
  shows "round_double neg a b = Infinity neg"
proof -
  have a: "0 < a" using assms by (cases "a = 0") simp_all
  note ba = bit_length_bounds [OF a] and bb = bit_length_bounds [OF assms(1)]
  have "2 ^ (bit_length b - 1) * 2 ^ 1024 \<le> b * 2 ^ 1024"
    using bb by simp
  also have "\<dots> < 2 ^ bit_length a" using assms(2) ba by simp
  finally have "(2::nat) ^ (bit_length b - 1 + 1024) < 2 ^ bit_length a"
    by (simp add: power_add)
  then have "bit_length b - 1 + 1024 < bit_length a"
    by (simp add: power_strict_increasing_iff)
  moreover have "0 < bit_length b"
    using assms(1) by (subst bit_length.simps) simp
  ultimately have d: "1024 \<le> int (bit_length a) - int (bit_length b)"
    by simp
  have ge: "ge_pow2 a b 1024"
    using assms(2) by (simp add: ge_pow2_def)
  have "1024 \<le> floor_log2 a b"
  proof (cases "int (bit_length a) - int (bit_length b) = 1024")
    case True
    then show ?thesis using ge by (simp add: floor_log2_def)
  next
    case False
    then show ?thesis using d by (simp add: floor_log2_def Let_def)
  qed
  then show ?thesis
    using a by (simp add: round_double_def Let_def)
qed

lemma decimal_1e999: "decimal_double False 1 999 = Infinity False"
  by (simp add: decimal_double_def round_double_overflow)

lemma number_1e999: "number_of_token (ascii ''1e999'') = Some (Infinity False)"
proof -
  have "number_of_token (ascii ''1e999'') = Some (decimal_double False 1 999)"
    by (simp add: number_of_token_def Let_def ascii_def is_digit_def nat_of_digits_def digit_value_def)
  then show ?thesis by (simp only: decimal_1e999)
qed

lemma parse_overflow: \<open>JSON_parse (ascii ''{"id":"abc","score":1e999}'')
   = Some (JObject [(ascii ''id'', JString (ascii ''abc'')), (ascii ''score'', JNumber (Infinity False))])\<close>
proof -
  have n: "number_of_token [0x31, 0x65, 0x39, 0x39, 0x39] = Some (Infinity False)"
    using number_1e999 by (simp add: ascii_def)
  show ?thesis
    by (simp add: JSON_parse_def ascii_def is_whitespace_def is_number_unit_def is_digit_def
        cons_token_def cons_unit_def n put_def is_array_index_def)
qed

lemma JSON_parse_roundtrip:
  "ordered v \<Longrightarrow> numbers_survive v \<Longrightarrow> JSON_parse (JSON_stringify v) = Some v"
  by (simp add: JSON_parse_stringify reread_ordered)

lemma JSON_parse_twice:
  "JSON_parse t = Some v \<Longrightarrow> numbers_survive v \<Longrightarrow> JSON_parse (JSON_stringify v) = Some v"
  by (simp add: JSON_parse_roundtrip JSON_parse_ordered)

lemma JSON_stringify_nonempty: "JSON_stringify v \<noteq> []"
proof
  assume "JSON_stringify v = []"
  then have "JSON_parse [] = Some (reread v)"
    using JSON_parse_stringify [of v] by simp
  then show False by (simp add: JSON_parse_def)
qed

lemma not_array_index_letters:
  "\<not> is_array_index (ascii ''error'')" "\<not> is_array_index (ascii ''details'')"
  by (simp_all add: is_array_index_def ascii_def is_digit_def)

lemma JSON_parse_error_body: "JSON_parse (JSON_stringify (error_body m)) = Some (error_body m)"
  by (intro JSON_parse_roundtrip) (simp_all add: error_body_def ordered_keys_def)

lemma JSON_parse_upstream_error_body:
  "JSON_parse (JSON_stringify (upstream_error_body t e)) = Some (upstream_error_body t e)"
proof -
  have "ascii ''error'' \<noteq> ascii ''details''" by (simp add: ascii_def)
  then show ?thesis
    by (intro JSON_parse_roundtrip)
       (simp_all add: upstream_error_body_def ordered_keys_def key_order_def not_array_index_letters)
qed

section \<open>Properties of the handler\<close>

subsection \<open>Requests that are not POST\<close>

text \<open>
  C2. For every request whose method is not POST the handler returns status 405 with the
  plain-text body \<^verbatim>\<open>Method Not Allowed\<close>, whatever the body and the platform are: the
  outcome is one fixed value, with no call of \<^verbatim>\<open>fetch\<close> and no line logged, so nothing of
  the body is read.
\<close>

theorem method_not_allowed:
  assumes "httpMethod ev \<noteq> ascii ''POST''"
  shows "handler ev env =
           \<lparr>returned = \<lparr>statusCode = 405, response.body = ascii ''Method Not Allowed''\<rparr>,
            requests = [], console = []\<rparr>"
  using assms by (simp add: handler_def)

theorem method_not_allowed_witness:
  \<open>httpMethod \<lparr>httpMethod = ascii ''GET'', event.body = Some (ascii ''{"model":"gpt-x"}'')\<rparr> \<noteq> ascii ''POST''
   \<and> handler \<lparr>httpMethod = ascii ''GET'', event.body = Some (ascii ''{"model":"gpt-x"}'')\<rparr>
        \<lparr>OPENAI_API_KEY = Some (ascii ''sk-test''), fetch = (\<lambda>c. Inl (TypeError (ascii ''fetch failed''))),
         syntax_error_message = (\<lambda>t. ascii ''Unexpected token'')\<rparr>
     = \<lparr>returned = \<lparr>statusCode = 405, response.body = ascii ''Method Not Allowed''\<rparr>,
        requests = [], console = []\<rparr>\<close>
proof -
  have m: "httpMethod \<lparr>httpMethod = ascii ''GET'', event.body = Some (ascii ''{\"model\":\"gpt-x\"}'')\<rparr> \<noteq> ascii ''POST''"
    by (simp add: ascii_def)
  show ?thesis
    using m method_not_allowed [OF m] by simp
qed


subsection \<open>The \<^verbatim>\<open>try\<close> block, step by step\<close>

lemma try_block_syntax_error:
  assumes "JSON_parse (ToString (event.body ev)) = None"
  shows "try_block ev env =
           (Inl (SyntaxError (syntax_error_message env (ToString (event.body ev)))), [], [])"
  using assms by (simp add: try_block_def parse_json_def)

lemma try_block_no_key:
  assumes "JSON_parse (ToString (event.body ev)) = Some requestBody"
    and "OPENAI_API_KEY env = None \<or> OPENAI_API_KEY env = Some []"
  shows "try_block ev env = (Inl (Error missing_key_message), [], [])"
  using assms by (auto simp: try_block_def parse_json_def)

lemma try_block_parsed:
  assumes "JSON_parse (ToString (event.body ev)) = Some requestBody"
    and "OPENAI_API_KEY env = Some apiKey" and "apiKey \<noteq> []"
  shows "try_block ev env =
     (let call = upstream_call apiKey requestBody in
      case fetch env call of
        Inl err \<Rightarrow> (Inl err, [call], [])
      | Inr resp \<Rightarrow>
          if \<not> ok resp then
            (case body_text resp of
               Inl err \<Rightarrow> (Inl err, [call], [])
             | Inr errorBody \<Rightarrow>
                 (Inr \<lparr>statusCode = status resp,
                       response.body = JSON_stringify (upstream_error_body (statusText resp) errorBody)\<rparr>,
                  [call], [OpenAI_API_Error errorBody]))
          else
            (case response_json env resp of
               Inl err \<Rightarrow> (Inl err, [call], [])
             | Inr data \<Rightarrow>
                 (Inr \<lparr>statusCode = 200, response.body = JSON_stringify data\<rparr>, [call], [])))"
  using assms by (simp add: try_block_def parse_json_def)

lemma try_block_calls:
  assumes "JSON_parse (ToString (event.body ev)) = Some requestBody"
    and "OPENAI_API_KEY env = Some apiKey" and "apiKey \<noteq> []"
  shows "fst (snd (try_block ev env)) = [upstream_call apiKey requestBody]"
  unfolding try_block_parsed [OF assms]
  by (simp add: Let_def split: sum.splits)

lemma requests_handler:
  "httpMethod ev = ascii ''POST'' \<Longrightarrow> requests (handler ev env) = fst (snd (try_block ev env))"
  by (cases "try_block ev env") (auto simp: handler_def split: sum.splits)

lemma handler_post:
  "httpMethod ev = ascii ''POST'' \<Longrightarrow>
   handler ev env =
     (case try_block ev env of
        (Inr resp, calls, logs) \<Rightarrow> \<lparr>returned = resp, requests = calls, console = logs\<rparr>
      | (Inl error, calls, logs) \<Rightarrow>
          \<lparr>returned = \<lparr>statusCode = 500, response.body = JSON_stringify (error_body (message error))\<rparr>,
           requests = calls, console = logs @ [Proxy_function_error error]\<rparr>)"
  by (simp add: handler_def)

lemma handler_no_key:
  assumes "httpMethod ev = ascii ''POST''"
    and "JSON_parse (ToString (event.body ev)) = Some requestBody"
    and "OPENAI_API_KEY env = None \<or> OPENAI_API_KEY env = Some []"
  shows "handler ev env =
           \<lparr>returned = \<lparr>statusCode = 500, response.body = JSON_stringify (error_body missing_key_message)\<rparr>,
            requests = [], console = [Proxy_function_error (Error missing_key_message)]\<rparr>"
  using assms(1) by (simp add: handler_post try_block_no_key [OF assms(2,3)])

subsection \<open>The request sent upstream\<close>

text \<open>
  C6. For every POST request whose body parses as JSON, with a credential that is set and
  not empty, the handler calls \<^verbatim>\<open>fetch\<close> exactly once: method POST, the fixed URL, the
  headers \<^verbatim>\<open>Content-Type: application/json\<close> and \<^verbatim>\<open>Authorization: Bearer\<close> followed by the
  credential, and as body the parsed inbound body serialized again.
\<close>

theorem upstream_request_issued:
  assumes "httpMethod ev = ascii ''POST''"
    and "JSON_parse (ToString (event.body ev)) = Some requestBody"
    and "OPENAI_API_KEY env = Some apiKey" and "apiKey \<noteq> []"
  shows "requests (handler ev env) =
           [\<lparr>url = ascii ''https://api.openai.com/v1/chat/completions'',
             request_method = ascii ''POST'',
             headers = [(ascii ''Content-Type'', ascii ''application/json''),
                        (ascii ''Authorization'', ascii ''Bearer '' @ apiKey)],
             fetch_call.body = JSON_stringify requestBody\<rparr>]"
  using assms by (simp add: requests_handler try_block_calls upstream_call_def)

theorem upstream_request_issued_witness:
  \<open>httpMethod (post_event (ascii ''{ "model" : "gpt-x", "messages":[]}'')) = ascii ''POST''
   \<and> JSON_parse (ToString (event.body (post_event (ascii ''{ "model" : "gpt-x", "messages":[]}''))))
       = Some (JObject [(ascii ''model'', JString (ascii ''gpt-x'')), (ascii ''messages'', JArray [])])
   \<and> OPENAI_API_KEY (stub_env (Some (ascii ''sk-test'')) (Inl (TypeError (ascii ''fetch failed''))))
       = Some (ascii ''sk-test'')
   \<and> ascii ''sk-test'' \<noteq> []
   \<and> requests (handler (post_event (ascii ''{ "model" : "gpt-x", "messages":[]}''))
         (stub_env (Some (ascii ''sk-test'')) (Inl (TypeError (ascii ''fetch failed'')))))
       = [\<lparr>url = ascii ''https://api.openai.com/v1/chat/completions'',
           request_method = ascii ''POST'',
           headers = [(ascii ''Content-Type'', ascii ''application/json''),
                      (ascii ''Authorization'', ascii ''Bearer '' @ ascii ''sk-test'')],
           fetch_call.body = ascii ''{"model":"gpt-x","messages":[]}''\<rparr>]\<close>
proof -
  let ?ev = \<open>post_event (ascii ''{ "model" : "gpt-x", "messages":[]}'')\<close>
  let ?env = "stub_env (Some (ascii ''sk-test'')) (Inl (TypeError (ascii ''fetch failed'')))"
  let ?v = "JObject [(ascii ''model'', JString (ascii ''gpt-x'')), (ascii ''messages'', JArray [])]"
  have h1: "httpMethod ?ev = ascii ''POST''"
    by (simp add: post_event_def)
  have h2: "JSON_parse (ToString (event.body ?ev)) = Some ?v"
    by code_simp
  have h3: "OPENAI_API_KEY ?env = Some (ascii ''sk-test'')"
    by (simp add: stub_env_def)
  have h4: "ascii ''sk-test'' \<noteq> []"
    by (simp add: ascii_def)
  have s: \<open>JSON_stringify ?v = ascii ''{"model":"gpt-x","messages":[]}''\<close>
    by code_simp
  have c: \<open>requests (handler ?ev ?env)
       = [\<lparr>url = ascii ''https://api.openai.com/v1/chat/completions'',
           request_method = ascii ''POST'',
           headers = [(ascii ''Content-Type'', ascii ''application/json''),
                      (ascii ''Authorization'', ascii ''Bearer '' @ ascii ''sk-test'')],
           fetch_call.body = ascii ''{"model":"gpt-x","messages":[]}''\<rparr>]\<close>
    using upstream_request_issued [OF h1 h2 h3 h4] unfolding s .
  show ?thesis
    by (intro conjI h1 h2 h3 h4 c)
qed

subsection \<open>An empty credential\<close>

text \<open>
  C9. For every POST request whose body parses as JSON, a credential that is set to the
  empty string is treated as one that is not set: the outcome is the same, status 500 with
  the missing-credential message in the \<^verbatim>\<open>error\<close> field, and \<^verbatim>\<open>fetch\<close> is not called.
\<close>

theorem empty_key_is_missing_key:
  assumes "httpMethod ev = ascii ''POST''"
    and "JSON_parse (ToString (event.body ev)) = Some requestBody"
    and "OPENAI_API_KEY env = Some []"
  shows "handler ev env = handler ev (env\<lparr>OPENAI_API_KEY := None\<rparr>)
       \<and> returned (handler ev env) =
           \<lparr>statusCode = 500, response.body = JSON_stringify (error_body missing_key_message)\<rparr>
       \<and> requests (handler ev env) = []"
proof -
  have a: "try_block ev env = (Inl (Error missing_key_message), [], [])"
    using assms by (simp add: try_block_no_key)
  have b: "try_block ev (env\<lparr>OPENAI_API_KEY := None\<rparr>) = (Inl (Error missing_key_message), [], [])"
    using assms(2) by (simp add: try_block_def parse_json_def)
  show ?thesis
    using assms(1) by (simp add: handler_post a b)
qed

theorem empty_key_is_missing_key_witness:
  \<open>httpMethod (post_event (ascii ''{"model":"gpt-x","messages":[]}'')) = ascii ''POST''
   \<and> JSON_parse (ToString (event.body (post_event (ascii ''{"model":"gpt-x","messages":[]}''))))
       = Some (JObject [(ascii ''model'', JString (ascii ''gpt-x'')), (ascii ''messages'', JArray [])])
   \<and> OPENAI_API_KEY (stub_env (Some []) (upstream_answer 200 (ascii ''OK'') (ascii ''{"id":"abc","choices":[]}'')))
       = Some []
   \<and> returned (handler (post_event (ascii ''{"model":"gpt-x","messages":[]}''))
         (stub_env (Some []) (upstream_answer 200 (ascii ''OK'') (ascii ''{"id":"abc","choices":[]}''))))
       = \<lparr>statusCode = 500,
          response.body = ascii ''{"error":"OpenAI API key is not set in Netlify environment variables."}''\<rparr>
   \<and> requests (handler (post_event (ascii ''{"model":"gpt-x","messages":[]}''))
         (stub_env (Some []) (upstream_answer 200 (ascii ''OK'') (ascii ''{"id":"abc","choices":[]}''))))
       = []\<close>
proof -
  let ?ev = \<open>post_event (ascii ''{"model":"gpt-x","messages":[]}'')\<close>
  let ?env = \<open>stub_env (Some []) (upstream_answer 200 (ascii ''OK'') (ascii ''{"id":"abc","choices":[]}''))\<close>
  let ?v = "JObject [(ascii ''model'', JString (ascii ''gpt-x'')), (ascii ''messages'', JArray [])]"
  have h1: "httpMethod ?ev = ascii ''POST''"
    by (simp add: post_event_def)
  have h2: "JSON_parse (ToString (event.body ?ev)) = Some ?v"
    by code_simp
  have h3: "OPENAI_API_KEY ?env = Some []"
    by (simp add: stub_env_def)
  have s: \<open>JSON_stringify (error_body missing_key_message)
             = ascii ''{"error":"OpenAI API key is not set in Netlify environment variables."}''\<close>
    by code_simp
  note t = empty_key_is_missing_key [OF h1 h2 h3]
  have c1: \<open>returned (handler ?ev ?env) = \<lparr>statusCode = 500,
          response.body = ascii ''{"error":"OpenAI API key is not set in Netlify environment variables."}''\<rparr>\<close>
    using t unfolding s by blast
  have c2: "requests (handler ?ev ?env) = []"
    using t by blast
  show ?thesis
    by (intro conjI h1 h2 h3 c1 c2)
qed


subsection \<open>The credential and the response\<close>

lemma handler_syntax_error:
  assumes "httpMethod ev = ascii ''POST''" and "JSON_parse (ToString (event.body ev)) = None"
  shows "handler ev env =
           \<lparr>returned = \<lparr>statusCode = 500,
              response.body = JSON_stringify (error_body (syntax_error_message env (ToString (event.body ev))))\<rparr>,
            requests = [],
            console = [Proxy_function_error (SyntaxError (syntax_error_message env (ToString (event.body ev))))]\<rparr>"
  using assms by (simp add: handler_post try_block_syntax_error)

lemma handler_sent:
  assumes "httpMethod ev = ascii ''POST''"
    and "JSON_parse (ToString (event.body ev)) = Some requestBody"
    and "OPENAI_API_KEY env = Some apiKey" and "apiKey \<noteq> []"
  shows "handler ev env =
           \<lparr>returned = fst (relay env (fetch env (upstream_call apiKey requestBody))),
            requests = [upstream_call apiKey requestBody],
            console = snd (relay env (fetch env (upstream_call apiKey requestBody)))\<rparr>"
  using assms(1)
  by (simp add: handler_post try_block_parsed [OF assms(2-4)] relay_def Let_def
      split: sum.splits)

lemma parse_json_syntax_message:
  assumes "syntax_error_message env1 = syntax_error_message env2"
  shows "parse_json env1 = parse_json env2"
  by (intro ext) (simp add: parse_json_def assms split: option.splits)

lemma response_json_syntax_message:
  assumes "syntax_error_message env1 = syntax_error_message env2"
  shows "response_json env1 = response_json env2"
  unfolding response_json_def parse_json_syntax_message [OF assms] by (rule refl)

lemma relay_syntax_message:
  assumes "syntax_error_message env1 = syntax_error_message env2"
  shows "relay env1 answer = relay env2 answer"
  unfolding relay_def response_json_syntax_message [OF assms] by (rule refl)




subsection \<open>Two invocations\<close>

text \<open>
  C8. The handler is a function of the event and of the platform of the invocation, and of
  the platform it reads only the credential, the answer of \<^verbatim>\<open>fetch\<close> to the request it
  sends, and the wording of syntax errors. Two invocations with the same request and the
  same configuration, against upstreams that answer the request sent the same way, have the
  same outcome: the same response, the same request sent, the same lines logged.
\<close>

theorem handler_stateless:
  assumes "OPENAI_API_KEY env1 = OPENAI_API_KEY env2"
    and "syntax_error_message env1 = syntax_error_message env2"
    and "map (fetch env1) (requests (handler ev env1)) = map (fetch env2) (requests (handler ev env1))"
  shows "handler ev env2 = handler ev env1"
proof (cases "httpMethod ev = ascii ''POST''")
  case False
  then show ?thesis by (simp add: handler_def)
next
  case post: True
  show ?thesis
  proof (cases "JSON_parse (ToString (event.body ev))")
    case None
    then show ?thesis using post assms(2) by (simp add: handler_syntax_error)
  next
    case (Some requestBody)
    show ?thesis
    proof (cases "OPENAI_API_KEY env1 = None \<or> OPENAI_API_KEY env1 = Some []")
      case True
      then show ?thesis
        using post Some assms(1) by (simp add: handler_post try_block_no_key)
    next
      case False
      then obtain k where k: "OPENAI_API_KEY env1 = Some k" "k \<noteq> []"
        by auto
      have h1: "handler ev env1 =
          \<lparr>returned = fst (relay env1 (fetch env1 (upstream_call k requestBody))),
           requests = [upstream_call k requestBody],
           console = snd (relay env1 (fetch env1 (upstream_call k requestBody)))\<rparr>"
        using post Some k by (intro handler_sent)
      have h2: "handler ev env2 =
          \<lparr>returned = fst (relay env2 (fetch env2 (upstream_call k requestBody))),
           requests = [upstream_call k requestBody],
           console = snd (relay env2 (fetch env2 (upstream_call k requestBody)))\<rparr>"
        using post Some k assms(1) by (intro handler_sent) simp_all
      have same: "fetch env1 (upstream_call k requestBody) = fetch env2 (upstream_call k requestBody)"
        using assms(3) unfolding h1 by simp
      show ?thesis
        unfolding h1 h2 using same relay_syntax_message [OF assms(2)] by simp
    qed
  qed
qed

theorem handler_stateless_witness:
  \<open>OPENAI_API_KEY (stub_env (Some (ascii ''sk-test'')) (upstream_answer 200 (ascii ''OK'') (ascii ''{"id":"abc","choices":[]}'')))
     = OPENAI_API_KEY (stub_env (Some (ascii ''sk-test'')) (upstream_answer 200 (ascii ''OK'') (ascii ''{"id":"abc","choices":[]}''))
         \<lparr>fetch := (\<lambda>call. if fetch_call.body call = ascii ''{"model":"gpt-x","messages":[]}''
                            then upstream_answer 200 (ascii ''OK'') (ascii ''{"id":"abc","choices":[]}'')
                            else Inl (TypeError (ascii ''fetch failed'')))\<rparr>)
   \<and> handler (post_event (ascii ''{"model":"gpt-x","messages":[]}''))
        (stub_env (Some (ascii ''sk-test'')) (upstream_answer 200 (ascii ''OK'') (ascii ''{"id":"abc","choices":[]}''))
         \<lparr>fetch := (\<lambda>call. if fetch_call.body call = ascii ''{"model":"gpt-x","messages":[]}''
                            then upstream_answer 200 (ascii ''OK'') (ascii ''{"id":"abc","choices":[]}'')
                            else Inl (TypeError (ascii ''fetch failed'')))\<rparr>)
     = handler (post_event (ascii ''{"model":"gpt-x","messages":[]}''))
        (stub_env (Some (ascii ''sk-test'')) (upstream_answer 200 (ascii ''OK'') (ascii ''{"id":"abc","choices":[]}'')))
   \<and> returned (handler (post_event (ascii ''{"model":"gpt-x","messages":[]}''))
        (stub_env (Some (ascii ''sk-test'')) (upstream_answer 200 (ascii ''OK'') (ascii ''{"id":"abc","choices":[]}''))))
     = \<lparr>statusCode = 200, response.body = ascii ''{"id":"abc","choices":[]}''\<rparr>\<close>
proof -
  let ?ev = \<open>post_event (ascii ''{"model":"gpt-x","messages":[]}'')\<close>
  let ?env1 = \<open>stub_env (Some (ascii ''sk-test'')) (upstream_answer 200 (ascii ''OK'') (ascii ''{"id":"abc","choices":[]}''))\<close>
  let ?env2 = \<open>?env1\<lparr>fetch := (\<lambda>call. if fetch_call.body call = ascii ''{"model":"gpt-x","messages":[]}''
                            then upstream_answer 200 (ascii ''OK'') (ascii ''{"id":"abc","choices":[]}'')
                            else Inl (TypeError (ascii ''fetch failed'')))\<rparr>\<close>
  have h1: "OPENAI_API_KEY ?env1 = OPENAI_API_KEY ?env2"
    by simp
  have h2: "syntax_error_message ?env1 = syntax_error_message ?env2"
    by simp
  have h3: "map (fetch ?env1) (requests (handler ?ev ?env1)) = map (fetch ?env2) (requests (handler ?ev ?env1))"
    by code_simp
  have c: "handler ?ev ?env2 = handler ?ev ?env1"
    using handler_stateless [OF h1 h2 h3] .
  have v: \<open>returned (handler ?ev ?env1) = \<lparr>statusCode = 200, response.body = ascii ''{"id":"abc","choices":[]}''\<rparr>\<close>
    by code_simp
  show ?thesis
    by (intro conjI h1 c v)
qed


subsection \<open>An upstream answer that is not a success\<close>

text \<open>
  C4. For every POST request whose body parses as JSON, with a credential that is set and
  not empty, when the upstream answers with a status \<open>S\<close> outside 200 to 299 and a body
  whose text is \<open>T\<close>, the handler returns the status \<open>S\<close> and a body that is the JSON text of
  an object with two fields: \<^verbatim>\<open>error\<close>, the summary \<^verbatim>\<open>OpenAI API request failed: \<close> followed by
  the status text of the upstream, and \<^verbatim>\<open>details\<close>, equal to \<open>T\<close>.
\<close>

theorem upstream_error_relayed:
  assumes "httpMethod ev = ascii ''POST''"
    and "JSON_parse (ToString (event.body ev)) = Some requestBody"
    and "OPENAI_API_KEY env = Some apiKey" and "apiKey \<noteq> []"
    and "fetch env (upstream_call apiKey requestBody) = Inr resp"
    and "status resp < 200 \<or> 299 < status resp"
    and "body_text resp = Inr T"
  shows "statusCode (returned (handler ev env)) = status resp
       \<and> JSON_parse (response.body (returned (handler ev env)))
           = Some (JObject [(ascii ''error'', JString (ascii ''OpenAI API request failed: '' @ statusText resp)),
                            (ascii ''details'', JString T)])"
proof -
  have "\<not> ok resp" using assms(6) by (auto simp: ok_def)
  then have "returned (handler ev env) =
      \<lparr>statusCode = status resp,
       response.body = JSON_stringify (upstream_error_body (statusText resp) T)\<rparr>"
    using assms(5,7) by (simp add: handler_sent [OF assms(1-4)] relay_def)
  then show ?thesis
    using JSON_parse_upstream_error_body [of "statusText resp" T]
    by (simp add: upstream_error_body_def)
qed

theorem upstream_error_relayed_witness:
  \<open>httpMethod (post_event (ascii ''{"model":"gpt-x","messages":[]}'')) = ascii ''POST''
   \<and> JSON_parse (ToString (event.body (post_event (ascii ''{"model":"gpt-x","messages":[]}''))))
       = Some (JObject [(ascii ''model'', JString (ascii ''gpt-x'')), (ascii ''messages'', JArray [])])
   \<and> OPENAI_API_KEY (stub_env (Some (ascii ''sk-test''))
         (upstream_answer 429 (ascii ''Too Many Requests'') (ascii ''Rate limit reached'')))
       = Some (ascii ''sk-test'')
   \<and> ascii ''sk-test'' \<noteq> []
   \<and> fetch (stub_env (Some (ascii ''sk-test''))
         (upstream_answer 429 (ascii ''Too Many Requests'') (ascii ''Rate limit reached'')))
        (upstream_call (ascii ''sk-test'')
          (JObject [(ascii ''model'', JString (ascii ''gpt-x'')), (ascii ''messages'', JArray [])]))
       = Inr \<lparr>status = 429, statusText = ascii ''Too Many Requests'',
              body_text = Inr (ascii ''Rate limit reached'')\<rparr>
   \<and> returned (handler (post_event (ascii ''{"model":"gpt-x","messages":[]}''))
         (stub_env (Some (ascii ''sk-test''))
           (upstream_answer 429 (ascii ''Too Many Requests'') (ascii ''Rate limit reached''))))
       = \<lparr>statusCode = 429,
          response.body = ascii ''{"error":"OpenAI API request failed: Too Many Requests","details":"Rate limit reached"}''\<rparr>
   \<and> JSON_parse (ascii ''{"error":"OpenAI API request failed: Too Many Requests","details":"Rate limit reached"}'')
       = Some (JObject [(ascii ''error'', JString (ascii ''OpenAI API request failed: '' @ ascii ''Too Many Requests'')),
                        (ascii ''details'', JString (ascii ''Rate limit reached''))])\<close>
proof -
  let ?ev = \<open>post_event (ascii ''{"model":"gpt-x","messages":[]}'')\<close>
  let ?env = "stub_env (Some (ascii ''sk-test''))
         (upstream_answer 429 (ascii ''Too Many Requests'') (ascii ''Rate limit reached''))"
  let ?rb = "JObject [(ascii ''model'', JString (ascii ''gpt-x'')), (ascii ''messages'', JArray [])]"
  let ?resp = "\<lparr>status = 429, statusText = ascii ''Too Many Requests'',
              body_text = Inr (ascii ''Rate limit reached'')\<rparr>"
  have h1: "httpMethod ?ev = ascii ''POST''"
    by (simp add: post_event_def)
  have h2: "JSON_parse (ToString (event.body ?ev)) = Some ?rb"
    by code_simp
  have h3: "OPENAI_API_KEY ?env = Some (ascii ''sk-test'')"
    by (simp add: stub_env_def)
  have h4: "ascii ''sk-test'' \<noteq> []"
    by (simp add: ascii_def)
  have h5: "fetch ?env (upstream_call (ascii ''sk-test'') ?rb) = Inr ?resp"
    by (simp add: stub_env_def upstream_answer_def)
  have h6: "status ?resp < 200 \<or> 299 < status ?resp"
    by simp
  have h7: "body_text ?resp = Inr (ascii ''Rate limit reached'')"
    by simp
  have r: \<open>returned (handler ?ev ?env) = \<lparr>statusCode = 429,
          response.body = ascii ''{"error":"OpenAI API request failed: Too Many Requests","details":"Rate limit reached"}''\<rparr>\<close>
    by code_simp
  have c: \<open>JSON_parse (ascii ''{"error":"OpenAI API request failed: Too Many Requests","details":"Rate limit reached"}'')
       = Some (JObject [(ascii ''error'', JString (ascii ''OpenAI API request failed: '' @ ascii ''Too Many Requests'')),
                        (ascii ''details'', JString (ascii ''Rate limit reached''))])\<close>
    using upstream_error_relayed [OF h1 h2 h3 h4 h5 h6 h7] unfolding r by simp
  show ?thesis
    by (intro conjI h1 h2 h3 h4 h5 r c)
qed


subsection \<open>Errors caught by the handler\<close>

text \<open>
  A POST request whose body does not parse, sent to a platform with no credential: the
  error reported is the syntax error of \<^verbatim>\<open>JSON.parse\<close>, which is thrown first, and the
  message does not mention the credential.
\<close>

theorem missing_key_message_counterexample:
  \<open>httpMethod (post_event (ascii ''{"model":'')) = ascii ''POST''
   \<and> OPENAI_API_KEY (stub_env None (Inl (TypeError (ascii ''fetch failed'')))) = None
   \<and> returned (handler (post_event (ascii ''{"model":''))
         (stub_env None (Inl (TypeError (ascii ''fetch failed'')))))
       = \<lparr>statusCode = 500, response.body = ascii ''{"error":"Unexpected end of JSON input"}''\<rparr>
   \<and> JSON_parse (ascii ''{"error":"Unexpected end of JSON input"}'')
       = Some (JObject [(ascii ''error'', JString (ascii ''Unexpected end of JSON input''))])
   \<and> ascii ''Unexpected end of JSON input'' \<noteq> missing_key_message\<close>
  by code_simp

text \<open>
  C3. For every POST request: if the body fails JSON parsing, the handler returns status
  500 and a body that is the JSON text of an object whose one field \<^verbatim>\<open>error\<close> holds the
  message of the syntax error, whether the credential is set or not; if the body parses and
  the credential is not set or is empty, the handler returns status 500 and the JSON text of
  an object whose one field \<^verbatim>\<open>error\<close> holds the missing-credential message.
\<close>

theorem internal_error_response:
  assumes "httpMethod ev = ascii ''POST''"
  shows "(JSON_parse (ToString (event.body ev)) = None \<longrightarrow>
            statusCode (returned (handler ev env)) = 500
          \<and> JSON_parse (response.body (returned (handler ev env)))
              = Some (JObject [(ascii ''error'', JString (syntax_error_message env (ToString (event.body ev))))]))
       \<and> (JSON_parse (ToString (event.body ev)) \<noteq> None
            \<and> (OPENAI_API_KEY env = None \<or> OPENAI_API_KEY env = Some []) \<longrightarrow>
            statusCode (returned (handler ev env)) = 500
          \<and> JSON_parse (response.body (returned (handler ev env)))
              = Some (JObject [(ascii ''error'', JString missing_key_message)]))"
proof (intro conjI impI)
  assume "JSON_parse (ToString (event.body ev)) = None"
  then have h: "returned (handler ev env) = \<lparr>statusCode = 500,
      response.body = JSON_stringify (error_body (syntax_error_message env (ToString (event.body ev))))\<rparr>"
    using assms by (simp add: handler_syntax_error)
  show "statusCode (returned (handler ev env)) = 500"
    by (simp add: h)
  show "JSON_parse (response.body (returned (handler ev env)))
      = Some (JObject [(ascii ''error'', JString (syntax_error_message env (ToString (event.body ev))))])"
    using JSON_parse_error_body [of "syntax_error_message env (ToString (event.body ev))"]
    by (simp add: h error_body_def)
next
  assume a: "JSON_parse (ToString (event.body ev)) \<noteq> None
    \<and> (OPENAI_API_KEY env = None \<or> OPENAI_API_KEY env = Some [])"
  then obtain rb where "JSON_parse (ToString (event.body ev)) = Some rb" by auto
  then have h: "returned (handler ev env) = \<lparr>statusCode = 500,
      response.body = JSON_stringify (error_body missing_key_message)\<rparr>"
    using assms a by (simp add: handler_no_key)
  show "statusCode (returned (handler ev env)) = 500"
    by (simp add: h)
  show "JSON_parse (response.body (returned (handler ev env)))
      = Some (JObject [(ascii ''error'', JString missing_key_message)])"
    using JSON_parse_error_body [of missing_key_message] by (simp add: h error_body_def)
qed

theorem internal_error_response_witness:
  \<open>httpMethod (post_event (ascii ''{"model":'')) = ascii ''POST''
   \<and> JSON_parse (ToString (event.body (post_event (ascii ''{"model":'')))) = None
   \<and> JSON_parse (response.body (returned (handler (post_event (ascii ''{"model":''))
         (stub_env (Some (ascii ''sk-test'')) (Inl (TypeError (ascii ''fetch failed'')))))))
       = Some (JObject [(ascii ''error'', JString (ascii ''Unexpected end of JSON input''))])
   \<and> httpMethod (post_event (ascii ''{"model":"gpt-x","messages":[]}'')) = ascii ''POST''
   \<and> JSON_parse (ToString (event.body (post_event (ascii ''{"model":"gpt-x","messages":[]}'')))) \<noteq> None
   \<and> OPENAI_API_KEY (stub_env None (Inl (TypeError (ascii ''fetch failed'')))) = None
   \<and> statusCode (returned (handler (post_event (ascii ''{"model":"gpt-x","messages":[]}''))
         (stub_env None (Inl (TypeError (ascii ''fetch failed'')))))) = 500
   \<and> JSON_parse (response.body (returned (handler (post_event (ascii ''{"model":"gpt-x","messages":[]}''))
         (stub_env None (Inl (TypeError (ascii ''fetch failed'')))))))
       = Some (JObject [(ascii ''error'',
            JString (ascii ''OpenAI API key is not set in Netlify environment variables.''))])\<close>
proof -
  let ?bad = \<open>post_event (ascii ''{"model":'')\<close>
  let ?good = \<open>post_event (ascii ''{"model":"gpt-x","messages":[]}'')\<close>
  let ?env1 = "stub_env (Some (ascii ''sk-test'')) (Inl (TypeError (ascii ''fetch failed'')))"
  let ?env2 = "stub_env None (Inl (TypeError (ascii ''fetch failed'')))"
  have b1: "httpMethod ?bad = ascii ''POST''" and g1: "httpMethod ?good = ascii ''POST''"
    by (simp_all add: post_event_def)
  have b2: "JSON_parse (ToString (event.body ?bad)) = None"
    by code_simp
  have g2: "JSON_parse (ToString (event.body ?good)) \<noteq> None"
    by code_simp
  have g3: "OPENAI_API_KEY ?env2 = None"
    by (simp add: stub_env_def)
  have m: "syntax_error_message ?env1 (ToString (event.body ?bad)) = ascii ''Unexpected end of JSON input''"
    by (simp add: stub_env_def)
  have k: "missing_key_message = ascii ''OpenAI API key is not set in Netlify environment variables.''"
    by (simp add: missing_key_message_def)
  have c1: "JSON_parse (response.body (returned (handler ?bad ?env1)))
       = Some (JObject [(ascii ''error'', JString (ascii ''Unexpected end of JSON input''))])"
    using internal_error_response [OF b1, of ?env1] b2 unfolding m by blast
  have c2: "statusCode (returned (handler ?good ?env2)) = 500"
    and c3: "JSON_parse (response.body (returned (handler ?good ?env2)))
       = Some (JObject [(ascii ''error'',
            JString (ascii ''OpenAI API key is not set in Netlify environment variables.''))])"
    using internal_error_response [OF g1, of ?env2] g2 g3 unfolding k by blast+
  show ?thesis
    by (intro conjI b1 b2 c1 g1 g2 g3 c2 c3)
qed


subsection \<open>Every response\<close>

lemma try_block_shape:
  "(\<exists>err calls logs. try_block ev env = (Inl err, calls, logs))
   \<or> (\<exists>v calls logs. try_block ev env = (Inr \<lparr>statusCode = 200, response.body = JSON_stringify v\<rparr>, calls, logs))
   \<or> (\<exists>v call resp logs. try_block ev env
          = (Inr \<lparr>statusCode = status resp, response.body = JSON_stringify v\<rparr>, [call], logs)
        \<and> fetch env call = Inr resp)"
  by (auto simp: try_block_def Let_def split: sum.splits option.splits)

lemma handler_post_shape:
  assumes "httpMethod ev = ascii ''POST''"
  shows "\<exists>v. response.body (returned (handler ev env)) = JSON_stringify v
       \<and> (statusCode (returned (handler ev env)) = 500
          \<or> statusCode (returned (handler ev env)) = 200
          \<or> (\<exists>call resp. call \<in> set (requests (handler ev env)) \<and> fetch env call = Inr resp
                \<and> statusCode (returned (handler ev env)) = status resp))"
  using try_block_shape [of ev env] 
  by (elim disjE exE conjE) (simp_all add: handler_post [OF assms], blast+)

text \<open>
  C5. For every request and every behaviour of the upstream, the status of the response is
  200, 405, 500 or the status of an answer that the upstream gave to a request of this
  invocation. For a POST request the body of the response is not empty and \<^verbatim>\<open>JSON.parse\<close>
  reads it as a value; for any other request the body is the plain text
  \<^verbatim>\<open>Method Not Allowed\<close>, which is not a JSON text.
\<close>

theorem response_status_and_body:
  "(statusCode (returned (handler ev env)) \<in> {200, 405, 500}
    \<or> (\<exists>call resp. call \<in> set (requests (handler ev env)) \<and> fetch env call = Inr resp
          \<and> statusCode (returned (handler ev env)) = status resp))
   \<and> (if httpMethod ev = ascii ''POST''
      then response.body (returned (handler ev env)) \<noteq> []
         \<and> (\<exists>v. JSON_parse (response.body (returned (handler ev env))) = Some v)
      else response.body (returned (handler ev env)) = ascii ''Method Not Allowed''
         \<and> JSON_parse (response.body (returned (handler ev env))) = None)"
proof (cases "httpMethod ev = ascii ''POST''")
  case True
  from handler_post_shape [OF True, of env] obtain v where
    b: "response.body (returned (handler ev env)) = JSON_stringify v"
    and s: "statusCode (returned (handler ev env)) = 500
          \<or> statusCode (returned (handler ev env)) = 200
          \<or> (\<exists>call resp. call \<in> set (requests (handler ev env)) \<and> fetch env call = Inr resp
                \<and> statusCode (returned (handler ev env)) = status resp)"
    by blast
  have "response.body (returned (handler ev env)) \<noteq> []"
    by (simp add: b JSON_stringify_nonempty)
  moreover have "\<exists>v. JSON_parse (response.body (returned (handler ev env))) = Some v"
    by (simp add: b JSON_parse_stringify)
  ultimately show ?thesis
    using True s by auto
next
  case False
  have p: "JSON_parse (ascii ''Method Not Allowed'') = None"
    by code_simp
  show ?thesis
    using False by (simp add: handler_def p)
qed

theorem response_status_and_body_witness:
  \<open>httpMethod (post_event (ascii ''{"model":"gpt-x","messages":[]}'')) = ascii ''POST''
   \<and> returned (handler (post_event (ascii ''{"model":"gpt-x","messages":[]}''))
         (stub_env (Some (ascii ''sk-test''))
           (upstream_answer 503 (ascii ''Service Unavailable'') (ascii ''overloaded''))))
       = \<lparr>statusCode = 503,
          response.body = ascii ''{"error":"OpenAI API request failed: Service Unavailable","details":"overloaded"}''\<rparr>
   \<and> ascii ''{"error":"OpenAI API request failed: Service Unavailable","details":"overloaded"}'' \<noteq> []
   \<and> (\<exists>v. JSON_parse (ascii ''{"error":"OpenAI API request failed: Service Unavailable","details":"overloaded"}'')
            = Some v)
   \<and> (\<exists>call resp. call \<in> set (requests (handler (post_event (ascii ''{"model":"gpt-x","messages":[]}''))
         (stub_env (Some (ascii ''sk-test''))
           (upstream_answer 503 (ascii ''Service Unavailable'') (ascii ''overloaded'')))))
         \<and> fetch (stub_env (Some (ascii ''sk-test''))
           (upstream_answer 503 (ascii ''Service Unavailable'') (ascii ''overloaded''))) call = Inr resp
         \<and> 503 = status resp)\<close>
proof -
  let ?ev = \<open>post_event (ascii ''{"model":"gpt-x","messages":[]}'')\<close>
  let ?env = "stub_env (Some (ascii ''sk-test''))
           (upstream_answer 503 (ascii ''Service Unavailable'') (ascii ''overloaded''))"
  have h: "httpMethod ?ev = ascii ''POST''"
    by (simp add: post_event_def)
  have r: \<open>returned (handler ?ev ?env) = \<lparr>statusCode = 503,
          response.body = ascii ''{"error":"OpenAI API request failed: Service Unavailable","details":"overloaded"}''\<rparr>\<close>
    by code_simp
  note t = response_status_and_body [of ?ev ?env, unfolded r]
  have n: \<open>ascii ''{"error":"OpenAI API request failed: Service Unavailable","details":"overloaded"}'' \<noteq> []\<close>
    and p: \<open>\<exists>v. JSON_parse (ascii ''{"error":"OpenAI API request failed: Service Unavailable","details":"overloaded"}'')
            = Some v\<close>
    using t h by simp_all
  have c: "\<exists>call resp. call \<in> set (requests (handler ?ev ?env))
         \<and> fetch ?env call = Inr resp \<and> 503 = status resp"
    using t by simp
  show ?thesis
    by (intro conjI h r n p c)
qed


subsection \<open>An upstream answer that is a success\<close>

lemma handler_success:
  assumes "httpMethod ev = ascii ''POST''"
    and "JSON_parse (ToString (event.body ev)) = Some requestBody"
    and "OPENAI_API_KEY env = Some apiKey" and "apiKey \<noteq> []"
    and "fetch env (upstream_call apiKey requestBody) = Inr resp"
    and "ok resp"
    and "body_text resp = Inr T"
    and "JSON_parse T = Some data"
  shows "returned (handler ev env) = \<lparr>statusCode = 200, response.body = JSON_stringify data\<rparr>"
  using assms(5-8)
  by (simp add: handler_sent [OF assms(1-4)] relay_def response_json_def parse_json_def)

lemma handler_empty_success:
  assumes "httpMethod ev = ascii ''POST''"
    and "JSON_parse (ToString (event.body ev)) = Some requestBody"
    and "OPENAI_API_KEY env = Some apiKey" and "apiKey \<noteq> []"
    and "fetch env (upstream_call apiKey requestBody) = Inr resp"
    and "ok resp"
    and "body_text resp = Inr T"
    and "JSON_parse T = None"
  shows "returned (handler ev env)
       = \<lparr>statusCode = 500, response.body = JSON_stringify (error_body (syntax_error_message env T))\<rparr>"
  using assms(5-8)
  by (simp add: handler_sent [OF assms(1-4)] relay_def response_json_def parse_json_def)

text \<open>
  A success whose body has no JSON text, as a 204 has: the handler answers 500.
\<close>

lemma success_without_body:
  \<open>returned (handler (post_event (ascii ''{"model":"gpt-x","messages":[]}''))
      (stub_env (Some (ascii ''sk-test'')) (upstream_answer 204 (ascii ''No Content'') [])))
   = \<lparr>statusCode = 500, response.body = ascii ''{"error":"Unexpected end of JSON input"}''\<rparr>\<close>
  by code_simp

text \<open>
  A success whose body holds a number beyond the range of the doubles: \<^verbatim>\<open>JSON.parse\<close> reads
  \<^verbatim>\<open>1e999\<close> as \<^verbatim>\<open>Infinity\<close>, which \<^verbatim>\<open>JSON.stringify\<close> writes \<^verbatim>\<open>null\<close>. The body returned is
  not the value that the upstream sent.
\<close>

theorem success_body_counterexample:
  \<open>httpMethod (post_event (ascii ''{"model":"gpt-x","messages":[]}'')) = ascii ''POST''
   \<and> JSON_parse (ToString (event.body (post_event (ascii ''{"model":"gpt-x","messages":[]}''))))
       = Some (JObject [(ascii ''model'', JString (ascii ''gpt-x'')), (ascii ''messages'', JArray [])])
   \<and> fetch (stub_env (Some (ascii ''sk-test''))
         (upstream_answer 200 (ascii ''OK'') (ascii ''{"id":"abc","score":1e999}'')))
        (upstream_call (ascii ''sk-test'')
          (JObject [(ascii ''model'', JString (ascii ''gpt-x'')), (ascii ''messages'', JArray [])]))
       = Inr \<lparr>status = 200, statusText = ascii ''OK'',
              body_text = Inr (ascii ''{"id":"abc","score":1e999}'')\<rparr>
   \<and> JSON_parse (ascii ''{"id":"abc","score":1e999}'')
       = Some (JObject [(ascii ''id'', JString (ascii ''abc'')), (ascii ''score'', JNumber (Infinity False))])
   \<and> returned (handler (post_event (ascii ''{"model":"gpt-x","messages":[]}''))
         (stub_env (Some (ascii ''sk-test''))
           (upstream_answer 200 (ascii ''OK'') (ascii ''{"id":"abc","score":1e999}''))))
       = \<lparr>statusCode = 200, response.body = ascii ''{"id":"abc","score":null}''\<rparr>
   \<and> JSON_parse (ascii ''{"id":"abc","score":null}'')
       = Some (JObject [(ascii ''id'', JString (ascii ''abc'')), (ascii ''score'', JNull)])
   \<and> JSON_parse (ascii ''{"id":"abc","score":null}'') \<noteq> JSON_parse (ascii ''{"id":"abc","score":1e999}'')\<close>
proof -
  let ?ev = \<open>post_event (ascii ''{"model":"gpt-x","messages":[]}'')\<close>
  let ?env = \<open>stub_env (Some (ascii ''sk-test''))
           (upstream_answer 200 (ascii ''OK'') (ascii ''{"id":"abc","score":1e999}''))\<close>
  let ?rb = "JObject [(ascii ''model'', JString (ascii ''gpt-x'')), (ascii ''messages'', JArray [])]"
  let ?resp = \<open>\<lparr>status = 200, statusText = ascii ''OK'',
              body_text = Inr (ascii ''{"id":"abc","score":1e999}'')\<rparr>\<close>
  let ?data = "JObject [(ascii ''id'', JString (ascii ''abc'')), (ascii ''score'', JNumber (Infinity False))]"
  have h1: "httpMethod ?ev = ascii ''POST''"
    by (simp add: post_event_def)
  have h2: "JSON_parse (ToString (event.body ?ev)) = Some ?rb"
    by code_simp
  have h3: "OPENAI_API_KEY ?env = Some (ascii ''sk-test'')"
    by (simp add: stub_env_def)
  have h4: "ascii ''sk-test'' \<noteq> []"
    by (simp add: ascii_def)
  have h5: "fetch ?env (upstream_call (ascii ''sk-test'') ?rb) = Inr ?resp"
    by (simp add: stub_env_def upstream_answer_def)
  have h6: "ok ?resp"
    by (simp add: ok_def)
  have h7: \<open>body_text ?resp = Inr (ascii ''{"id":"abc","score":1e999}'')\<close>
    by simp
  have s: \<open>JSON_stringify ?data = ascii ''{"id":"abc","score":null}''\<close>
    by code_simp
  have r: \<open>returned (handler ?ev ?env)
      = \<lparr>statusCode = 200, response.body = ascii ''{"id":"abc","score":null}''\<rparr>\<close>
    using handler_success [OF h1 h2 h3 h4 h5 h6 h7 parse_overflow] by (simp only: s)
  have p: \<open>JSON_parse (ascii ''{"id":"abc","score":null}'')
       = Some (JObject [(ascii ''id'', JString (ascii ''abc'')), (ascii ''score'', JNull)])\<close>
    by code_simp
  have d: \<open>JSON_parse (ascii ''{"id":"abc","score":null}'') \<noteq> JSON_parse (ascii ''{"id":"abc","score":1e999}'')\<close>
    unfolding p parse_overflow by simp
  show ?thesis
    by (intro conjI h1 h2 h5 parse_overflow r p d)
qed

text \<open>
  C1. For every POST request whose body parses as JSON, with a credential that is set and
  not empty, when the upstream answers with a status from 200 to 299 and a body whose text
  parses as the JSON value \<open>data\<close>, the handler returns status 200 and the body
  \<^verbatim>\<open>JSON.stringify(data)\<close>. Read again, that body is the value \<open>reread data\<close>; it is \<open>data\<close>
  itself when every number of \<open>data\<close> is read again from its decimal as it was.
\<close>

theorem upstream_success_relayed:
  assumes "httpMethod ev = ascii ''POST''"
    and "JSON_parse (ToString (event.body ev)) = Some requestBody"
    and "OPENAI_API_KEY env = Some apiKey" and "apiKey \<noteq> []"
    and "fetch env (upstream_call apiKey requestBody) = Inr resp"
    and "200 \<le> status resp" and "status resp \<le> 299"
    and "body_text resp = Inr T"
    and "JSON_parse T = Some data"
  shows "statusCode (returned (handler ev env)) = 200
       \<and> response.body (returned (handler ev env)) = JSON_stringify data
       \<and> JSON_parse (response.body (returned (handler ev env))) = Some (reread data)
       \<and> (numbers_survive data \<longrightarrow> JSON_parse (response.body (returned (handler ev env))) = Some data)"
proof -
  have "ok resp" using assms(6,7) by (simp add: ok_def)
  note r = handler_success [OF assms(1-5) this assms(8,9)]
  show ?thesis
    using JSON_parse_twice [OF assms(9)] by (simp add: r JSON_parse_stringify)
qed

theorem upstream_success_relayed_witness:
  \<open>httpMethod (post_event (ascii ''{"model":"gpt-x","messages":[]}'')) = ascii ''POST''
   \<and> JSON_parse (ToString (event.body (post_event (ascii ''{"model":"gpt-x","messages":[]}''))))
       = Some (JObject [(ascii ''model'', JString (ascii ''gpt-x'')), (ascii ''messages'', JArray [])])
   \<and> OPENAI_API_KEY (stub_env (Some (ascii ''sk-test''))
         (upstream_answer 200 (ascii ''OK'') (ascii ''{ "id": "abc", "choices": [] }'')))
       = Some (ascii ''sk-test'')
   \<and> ascii ''sk-test'' \<noteq> []
   \<and> fetch (stub_env (Some (ascii ''sk-test''))
         (upstream_answer 200 (ascii ''OK'') (ascii ''{ "id": "abc", "choices": [] }'')))
        (upstream_call (ascii ''sk-test'')
          (JObject [(ascii ''model'', JString (ascii ''gpt-x'')), (ascii ''messages'', JArray [])]))
       = Inr \<lparr>status = 200, statusText = ascii ''OK'',
              body_text = Inr (ascii ''{ "id": "abc", "choices": [] }'')\<rparr>
   \<and> JSON_parse (ascii ''{ "id": "abc", "choices": [] }'')
       = Some (JObject [(ascii ''id'', JString (ascii ''abc'')), (ascii ''choices'', JArray [])])
   \<and> numbers_survive (JObject [(ascii ''id'', JString (ascii ''abc'')), (ascii ''choices'', JArray [])])
   \<and> returned (handler (post_event (ascii ''{"model":"gpt-x","messages":[]}''))
         (stub_env (Some (ascii ''sk-test''))
           (upstream_answer 200 (ascii ''OK'') (ascii ''{ "id": "abc", "choices": [] }''))))
       = \<lparr>statusCode = 200, response.body = ascii ''{"id":"abc","choices":[]}''\<rparr>
   \<and> JSON_parse (ascii ''{"id":"abc","choices":[]}'')
       = Some (JObject [(ascii ''id'', JString (ascii ''abc'')), (ascii ''choices'', JArray [])])\<close>
proof -
  let ?ev = \<open>post_event (ascii ''{"model":"gpt-x","messages":[]}'')\<close>
  let ?env = \<open>stub_env (Some (ascii ''sk-test''))
         (upstream_answer 200 (ascii ''OK'') (ascii ''{ "id": "abc", "choices": [] }''))\<close>
  let ?rb = "JObject [(ascii ''model'', JString (ascii ''gpt-x'')), (ascii ''messages'', JArray [])]"
  let ?resp = \<open>\<lparr>status = 200, statusText = ascii ''OK'',
              body_text = Inr (ascii ''{ "id": "abc", "choices": [] }'')\<rparr>\<close>
  let ?data = "JObject [(ascii ''id'', JString (ascii ''abc'')), (ascii ''choices'', JArray [])]"
  have h1: "httpMethod ?ev = ascii ''POST''"
    by (simp add: post_event_def)
  have h2: "JSON_parse (ToString (event.body ?ev)) = Some ?rb"
    by code_simp
  have h3: "OPENAI_API_KEY ?env = Some (ascii ''sk-test'')"
    by (simp add: stub_env_def)
  have h4: "ascii ''sk-test'' \<noteq> []"
    by (simp add: ascii_def)
  have h5: "fetch ?env (upstream_call (ascii ''sk-test'') ?rb) = Inr ?resp"
    by (simp add: stub_env_def upstream_answer_def)
  have h6: "200 \<le> status ?resp" and h7: "status ?resp \<le> 299"
    by simp_all
  have h8: \<open>body_text ?resp = Inr (ascii ''{ "id": "abc", "choices": [] }'')\<close>
    by simp
  have h9: \<open>JSON_parse (ascii ''{ "id": "abc", "choices": [] }'') = Some ?data\<close>
    by code_simp
  have n: "numbers_survive ?data"
    by simp
  have r: \<open>returned (handler ?ev ?env)
      = \<lparr>statusCode = 200, response.body = ascii ''{"id":"abc","choices":[]}''\<rparr>\<close>
    by code_simp
  have c: \<open>JSON_parse (ascii ''{"id":"abc","choices":[]}'') = Some ?data\<close>
    using upstream_success_relayed [OF h1 h2 h3 h4 h5 h6 h7 h8 h9] n
    unfolding r response.simps by blast
  show ?thesis
    by (intro conjI h1 h2 h3 h4 h5 h9 n r c)
qed


subsection \<open>The body forwarded upstream\<close>

lemma parse_request_overflow: \<open>JSON_parse (ascii ''{"model":"gpt-x","max_tokens":1e999}'')
   = Some (JObject [(ascii ''model'', JString (ascii ''gpt-x'')),
                    (ascii ''max_tokens'', JNumber (Infinity False))])\<close>
proof -
  have n: "number_of_token [0x31, 0x65, 0x39, 0x39, 0x39] = Some (Infinity False)"
    using number_1e999 by (simp add: ascii_def)
  show ?thesis
    by (simp add: JSON_parse_def ascii_def is_whitespace_def is_number_unit_def is_digit_def
        cons_token_def cons_unit_def n put_def is_array_index_def)
qed

text \<open>
  A request with a number beyond the range of the doubles: the body forwarded holds
  \<^verbatim>\<open>null\<close> in its place, and is not the value of the inbound body.
\<close>

theorem forwarded_body_counterexample:
  \<open>httpMethod (post_event (ascii ''{"model":"gpt-x","max_tokens":1e999}'')) = ascii ''POST''
   \<and> JSON_parse (ToString (event.body (post_event (ascii ''{"model":"gpt-x","max_tokens":1e999}''))))
       = Some (JObject [(ascii ''model'', JString (ascii ''gpt-x'')),
                        (ascii ''max_tokens'', JNumber (Infinity False))])
   \<and> map fetch_call.body (requests (handler (post_event (ascii ''{"model":"gpt-x","max_tokens":1e999}''))
         (stub_env (Some (ascii ''sk-test'')) (Inl (TypeError (ascii ''fetch failed''))))))
       = [ascii ''{"model":"gpt-x","max_tokens":null}'']
   \<and> JSON_parse (ascii ''{"model":"gpt-x","max_tokens":null}'')
       = Some (JObject [(ascii ''model'', JString (ascii ''gpt-x'')), (ascii ''max_tokens'', JNull)])
   \<and> JSON_parse (ascii ''{"model":"gpt-x","max_tokens":null}'')
       \<noteq> JSON_parse (ascii ''{"model":"gpt-x","max_tokens":1e999}'')\<close>
proof -
  let ?ev = \<open>post_event (ascii ''{"model":"gpt-x","max_tokens":1e999}'')\<close>
  let ?env = "stub_env (Some (ascii ''sk-test'')) (Inl (TypeError (ascii ''fetch failed'')))"
  let ?rb = "JObject [(ascii ''model'', JString (ascii ''gpt-x'')),
                      (ascii ''max_tokens'', JNumber (Infinity False))]"
  have h1: "httpMethod ?ev = ascii ''POST''"
    by (simp add: post_event_def)
  have h2: "JSON_parse (ToString (event.body ?ev)) = Some ?rb"
    using parse_request_overflow by (simp add: post_event_def ToString_def)
  have h3: "OPENAI_API_KEY ?env = Some (ascii ''sk-test'')"
    by (simp add: stub_env_def)
  have h4: "ascii ''sk-test'' \<noteq> []"
    by (simp add: ascii_def)
  have s: \<open>JSON_stringify ?rb = ascii ''{"model":"gpt-x","max_tokens":null}''\<close>
    by code_simp
  have "requests (handler ?ev ?env) = [upstream_call (ascii ''sk-test'') ?rb]"
    by (simp only: requests_handler [OF h1] try_block_calls [OF h2 h3 h4])
  then have r: \<open>map fetch_call.body (requests (handler ?ev ?env))
      = [ascii ''{"model":"gpt-x","max_tokens":null}'']\<close>
    unfolding upstream_call_def s by simp
  have p: \<open>JSON_parse (ascii ''{"model":"gpt-x","max_tokens":null}'')
       = Some (JObject [(ascii ''model'', JString (ascii ''gpt-x'')), (ascii ''max_tokens'', JNull)])\<close>
    by code_simp
  have d: \<open>JSON_parse (ascii ''{"model":"gpt-x","max_tokens":null}'')
       \<noteq> JSON_parse (ascii ''{"model":"gpt-x","max_tokens":1e999}'')\<close>
    unfolding p parse_request_overflow by simp
  show ?thesis
    by (intro conjI h1 h2 r p d)
qed

text \<open>
  C10. For every POST request whose body parses as the JSON value \<open>requestBody\<close>, with a
  credential that is set and not empty, the body of the request sent upstream is
  \<^verbatim>\<open>JSON.stringify(requestBody)\<close>, the writing of the parsed inbound body. Read again it is the
  value \<open>reread requestBody\<close>, and \<open>requestBody\<close> itself when every number of it is read again
  from its decimal as it was. It need not be the inbound text: the white space is not kept.
\<close>

theorem forwarded_body:
  assumes "httpMethod ev = ascii ''POST''"
    and "JSON_parse (ToString (event.body ev)) = Some requestBody"
    and "OPENAI_API_KEY env = Some apiKey" and "apiKey \<noteq> []"
  shows "map fetch_call.body (requests (handler ev env)) = [JSON_stringify requestBody]
       \<and> JSON_parse (JSON_stringify requestBody) = Some (reread requestBody)
       \<and> (numbers_survive requestBody \<longrightarrow> JSON_parse (JSON_stringify requestBody) = Some requestBody)"
proof -
  have "requests (handler ev env) = [upstream_call apiKey requestBody]"
    by (simp only: requests_handler [OF assms(1)] try_block_calls [OF assms(2-4)])
  then show ?thesis
    using JSON_parse_twice [OF assms(2)] by (simp add: upstream_call_def JSON_parse_stringify)
qed

theorem forwarded_body_witness:
  \<open>httpMethod (post_event (ascii ''{ "model" : "gpt-x", "messages" : [ ] }'')) = ascii ''POST''
   \<and> JSON_parse (ToString (event.body (post_event (ascii ''{ "model" : "gpt-x", "messages" : [ ] }''))))
       = Some (JObject [(ascii ''model'', JString (ascii ''gpt-x'')), (ascii ''messages'', JArray [])])
   \<and> OPENAI_API_KEY (stub_env (Some (ascii ''sk-test'')) (Inl (TypeError (ascii ''fetch failed''))))
       = Some (ascii ''sk-test'')
   \<and> ascii ''sk-test'' \<noteq> []
   \<and> numbers_survive (JObject [(ascii ''model'', JString (ascii ''gpt-x'')), (ascii ''messages'', JArray [])])
   \<and> JSON_stringify (JObject [(ascii ''model'', JString (ascii ''gpt-x'')), (ascii ''messages'', JArray [])])
       = ascii ''{"model":"gpt-x","messages":[]}''
   \<and> map fetch_call.body (requests (handler (post_event (ascii ''{ "model" : "gpt-x", "messages" : [ ] }''))
         (stub_env (Some (ascii ''sk-test'')) (Inl (TypeError (ascii ''fetch failed''))))))
       = [ascii ''{"model":"gpt-x","messages":[]}'']
   \<and> JSON_parse (ascii ''{"model":"gpt-x","messages":[]}'')
       = Some (JObject [(ascii ''model'', JString (ascii ''gpt-x'')), (ascii ''messages'', JArray [])])
   \<and> ascii ''{"model":"gpt-x","messages":[]}'' \<noteq> ascii ''{ "model" : "gpt-x", "messages" : [ ] }''\<close>
proof -
  let ?ev = \<open>post_event (ascii ''{ "model" : "gpt-x", "messages" : [ ] }'')\<close>
  let ?env = "stub_env (Some (ascii ''sk-test'')) (Inl (TypeError (ascii ''fetch failed'')))"
  let ?rb = "JObject [(ascii ''model'', JString (ascii ''gpt-x'')), (ascii ''messages'', JArray [])]"
  have h1: "httpMethod ?ev = ascii ''POST''"
    by (simp add: post_event_def)
  have h2: "JSON_parse (ToString (event.body ?ev)) = Some ?rb"
    by code_simp
  have h3: "OPENAI_API_KEY ?env = Some (ascii ''sk-test'')"
    by (simp add: stub_env_def)
  have h4: "ascii ''sk-test'' \<noteq> []"
    by (simp add: ascii_def)
  have n: "numbers_survive ?rb"
    by simp
  have s: \<open>JSON_stringify ?rb = ascii ''{"model":"gpt-x","messages":[]}''\<close>
    by code_simp
  note t = forwarded_body [OF h1 h2 h3 h4, unfolded s]
  have r: \<open>map fetch_call.body (requests (handler ?ev ?env)) = [ascii ''{"model":"gpt-x","messages":[]}'']\<close>
    using t by blast
  have c: \<open>JSON_parse (ascii ''{"model":"gpt-x","messages":[]}'') = Some ?rb\<close>
    using t n by blast
  have d: \<open>ascii ''{"model":"gpt-x","messages":[]}'' \<noteq> ascii ''{ "model" : "gpt-x", "messages" : [ ] }''\<close>
    by (simp add: ascii_def)
  show ?thesis
    by (intro conjI h1 h2 h3 h4 n s r c d)
qed

end
